theory Spec2Isabelle
  imports Main
begin

section \<open>Session management of the remote plugin (RemotePluginAuth)\<close>

text \<open>
  The development embeds the class \<open>RemotePluginAuth\<close> and the response-error hook
  \<open>JellyfinInterceptors.logoutInterceptor\<close> of
  \<^verbatim>\<open>src/frontend/src/composables/use-remote.ts\<close>, and, beside them, four
  methods of the earlier store \<open>authStore\<close> of \<^verbatim>\<open>src/frontend/store/auth.ts\<close>
  that differ from them in what they leave behind.

  Every asynchronous method is a function from the state before the call, the
  arguments and the answers of the network to the outcome of the promise (\<open>Inl\<close> an
  error when it rejects, \<open>Inr ()\<close> when it resolves), the state afterwards and the
  effects raised on the collaborators (notifications, navigation, remote sign-out
  requests), in the order the source raises them.
\<close>

subsection \<open>JavaScript values\<close>

text \<open>
  A property of a server answer may be absent (\<open>undefined\<close>), \<open>null\<close> or present.
  Strict equality \<open>===\<close> on such properties is equality of this datatype.
\<close>

datatype 'a js_opt = Undefined | Null | Val 'a

text \<open>Truthiness of an optional string (the empty string is falsy) and boolean.\<close>

fun truthy_str :: "string js_opt \<Rightarrow> bool" where
  "truthy_str (Val v) = (v \<noteq> [])"
| "truthy_str _ = False"

fun truthy_bool :: "bool js_opt \<Rightarrow> bool" where
  "truthy_bool (Val b) = b"
| "truthy_bool _ = False"

text \<open>
  A value used as a property key (\<open>accessTokens[user.Id as string]\<close>) is converted
  to a string: \<open>undefined\<close> and \<open>null\<close> become their names.
\<close>

fun key_of :: "string js_opt \<Rightarrow> string" where
  "key_of (Val v) = v"
| "key_of Undefined = ''undefined''"
| "key_of Null = ''null''"

text \<open>\<open>xs[i]\<close>: out of range reads give \<open>undefined\<close>, here \<open>None\<close>.\<close>

definition js_index :: "'a list \<Rightarrow> int \<Rightarrow> 'a option" where
  "js_index xs i = (if 0 \<le> i \<and> i < int (length xs) then Some (xs ! nat i) else None)"

text \<open>Position of the first element satisfying a predicate.\<close>

fun findIndex :: "('a \<Rightarrow> bool) \<Rightarrow> 'a list \<Rightarrow> nat option" where
  "findIndex P [] = None"
| "findIndex P (x # xs) = (if P x then Some 0 else map_option Suc (findIndex P xs))"

text \<open>\<open>xs.indexOf(x)\<close>: the first position of \<open>x\<close>, or \<open>-1\<close>.\<close>

definition indexOf :: "'a list \<Rightarrow> 'a \<Rightarrow> int" where
  "indexOf xs x = (case findIndex (\<lambda>y. y = x) xs of None \<Rightarrow> - 1 | Some i \<Rightarrow> int i)"

text \<open>
  \<open>xs.splice(i, 1)\<close>, the array afterwards: a negative start counts from the end
  (so \<open>-1\<close> removes the last element), a start past the end removes nothing.
\<close>

definition splice1 :: "int \<Rightarrow> 'a list \<Rightarrow> 'a list" where
  "splice1 i xs =
     (let n = int (length xs);
          start = (if i < 0 then max (n + i) 0 else min i n)
      in take (nat start) xs @ drop (Suc (nat start)) xs)"

subsection \<open>Data model\<close>

text \<open>
  \<open>ServerInfo\<close> (\<^verbatim>\<open>src/frontend/store/auth.ts\<close>, lines 8-11) extends the SDK's
  \<open>PublicSystemInfo\<close> by \<open>PublicAddress\<close> and \<open>isDefault\<close>. The fields of
  \<open>PublicSystemInfo\<close> that the methods read are kept, each optional and nullable,
  and \<open>ServerName\<close> with them, for the fields that are only stored and merged.
\<close>

record PublicSystemInfo =
  srv_Id :: "string js_opt"
  srv_Version :: "string js_opt"
  srv_StartupWizardCompleted :: "bool js_opt"
  srv_LocalAddress :: "string js_opt"
  srv_ServerName :: "string js_opt"

record ServerInfo = PublicSystemInfo +
  srv_PublicAddress :: string
  srv_isDefault :: bool

text \<open>\<open>UserDto\<close> of the SDK: the fields the methods read.\<close>

record UserDto =
  usr_Id :: "string js_opt"
  usr_ServerId :: "string js_opt"
  usr_Name :: "string js_opt"

text \<open>
  \<open>AuthState\<close>. The server objects are shared and mutated in place
  (\<open>merge(oldServer, serv)\<close> in \<open>connectServer\<close> writes into an object that may still
  be an element of \<open>servers\<close>, and pushes it again), so the array \<open>servers\<close> holds
  references and \<open>objects\<close> is the store that maps a reference to the object's
  fields. User objects are never written after they are pushed, and every search
  the source makes for one (\<open>find\<close> by \<open>Id\<close>, then \<open>indexOf\<close> of the element found)
  ends at the first position whose \<open>Id\<close> matches, so \<open>users\<close> holds the records.
\<close>

type_synonym ref = nat

record AuthState =
  servers :: "ref list"
  currentServerIndex :: int
  currentUserIndex :: int
  users :: "UserDto list"
  rememberMe :: bool
  accessTokens :: "string \<rightharpoonup> string"
  objects :: "ref \<Rightarrow> ServerInfo"

text \<open>
  The errors a method rejects with. \<open>RequestRejected\<close> is the rejection of an awaited
  request handed on to the caller; only the earlier store does that.
\<close>

datatype error =
  ServerUnreachable | VersionUnsupported | NoCurrentServer | ServerUnknown | RequestRejected

text \<open>
  A message is a translation key handed to \<open>i18n.t\<close> or a literal string; the
  translations themselves are outside the repository.
\<close>

datatype message = T string | Lit string

datatype effect =
    Notify message string
  | Navigate string
  | RemoteLogout string "string option"

type_synonym outcome = "(error + unit) \<times> AuthState \<times> effect list"

text \<open>The state the store starts with when nothing is persisted (lines 27-42).\<close>

definition initial :: "(ref \<Rightarrow> ServerInfo) \<Rightarrow> AuthState" where
  "initial h = \<lparr> servers = [], currentServerIndex = - 1, currentUserIndex = - 1,
                 users = [], rememberMe = True, accessTokens = Map.empty, objects = h \<rparr>"

subsection \<open>Getters\<close>

definition currentServer :: "AuthState \<Rightarrow> ServerInfo option" where
  "currentServer s = map_option (objects s) (js_index (servers s) (currentServerIndex s))"

definition currentUser :: "AuthState \<Rightarrow> UserDto option" where
  "currentUser s = js_index (users s) (currentUserIndex s)"

definition getUserAccessToken :: "AuthState \<Rightarrow> UserDto option \<Rightarrow> string option" where
  "getUserAccessToken s user =
     (case user of
        None \<Rightarrow> None
      | Some u \<Rightarrow> (if truthy_str (usr_Id u) then accessTokens s (key_of (usr_Id u)) else None))"

definition getServerById :: "AuthState \<Rightarrow> string js_opt \<Rightarrow> ref option" where
  "getServerById s serverId = find (\<lambda>r. srv_Id (objects s r) = serverId) (servers s)"

definition getUsersFromServer :: "AuthState \<Rightarrow> ServerInfo \<Rightarrow> UserDto list" where
  "getUsersFromServer s server = filter (\<lambda>u. usr_ServerId u = srv_Id server) (users s)"

subsection \<open>logoutUser (lines 218-239)\<close>

text \<open>
  The promise of the remote sign-out is neither awaited nor given a handler, so the
  way it settles (\<open>settled\<close>) cannot reach the method: the \<open>finally\<close> block runs
  right after the request is issued.
\<close>

datatype settled = Fulfilled | Rejected

definition logoutUser :: "AuthState \<Rightarrow> UserDto \<Rightarrow> ServerInfo \<Rightarrow> bool \<Rightarrow> settled \<Rightarrow> outcome" where
  "logoutUser s user server skipRequest remote =
     (let request = (if \<not> skipRequest
                     then [RemoteLogout (srv_PublicAddress server) (getUserAccessToken s (Some user))]
                     else []);
          users' = (case findIndex (\<lambda>u. usr_Id u = usr_Id user) (users s) of
                      None \<Rightarrow> users s
                    | Some i \<Rightarrow> splice1 (int i) (users s))
      in (Inr (),
          s\<lparr> users := users', accessTokens := (accessTokens s)(key_of (usr_Id user) := None) \<rparr>,
          request))"

subsection \<open>logoutCurrentUser (lines 200-210)\<close>

definition logoutCurrentUser :: "AuthState \<Rightarrow> bool \<Rightarrow> settled \<Rightarrow> outcome" where
  "logoutCurrentUser s skipRequest remote =
     (case (currentUser s, currentServer s) of
        (Some user, Some server) \<Rightarrow>
          (case logoutUser s user server skipRequest remote of
             (res, s1, ev) \<Rightarrow> (res, s1\<lparr> currentUserIndex := - 1 \<rparr>, ev))
      | _ \<Rightarrow> (Inr (), s, []))"

subsection \<open>deleteServer (lines 245-263)\<close>

text \<open>
  The loop signs the users out one after the other; \<open>server.PublicAddress\<close> is read
  from the store at each call. \<open>net u\<close> is how the request made for \<open>u\<close> settles.
\<close>

fun logoutUsers :: "AuthState \<Rightarrow> ref \<Rightarrow> (UserDto \<Rightarrow> settled) \<Rightarrow> UserDto list \<Rightarrow> AuthState \<times> effect list" where
  "logoutUsers s server net [] = (s, [])"
| "logoutUsers s server net (u # us) =
     (case logoutUser s u (objects s server) False (net u) of
        (_, s1, ev1) \<Rightarrow>
          (case logoutUsers s1 server net us of (s2, ev2) \<Rightarrow> (s2, ev1 @ ev2)))"

definition removeServer :: "AuthState \<Rightarrow> ref \<Rightarrow> AuthState" where
  "removeServer s server = s\<lparr> servers := splice1 (indexOf (servers s) server) (servers s) \<rparr>"

definition deleteServer :: "AuthState \<Rightarrow> string \<Rightarrow> (UserDto \<Rightarrow> settled) \<Rightarrow> outcome" where
  "deleteServer s serverUrl net =
     (case find (\<lambda>r. srv_PublicAddress (objects s r) = serverUrl) (servers s) of
        None \<Rightarrow> (Inl ServerUnknown, s, [])
      | Some server \<Rightarrow>
          (case logoutUsers s server net (getUsersFromServer s (objects s server)) of
             (s1, ev) \<Rightarrow> (Inr (), removeServer s1 server, ev)))"

subsection \<open>connectServer (lines 93-145)\<close>

text \<open>
  \<open>serverUrl.replace(/\/$/, '').trim()\<close>: one trailing slash is taken off first, the
  white space around the rest afterwards. A string is a list of 8-bit characters
  here, so the white space of \<open>trim\<close> is the part of JavaScript's that fits: tab,
  line feed, vertical tab, form feed, carriage return, space and no-break space.
\<close>

definition is_space :: "char \<Rightarrow> bool" where
  "is_space c = (c \<in> set [CHR 0x09, CHR 0x0A, CHR 0x0B, CHR 0x0C, CHR 0x0D, CHR 0x20, CHR 0xA0])"

definition trim :: "string \<Rightarrow> string" where
  "trim s = rev (dropWhile is_space (rev (dropWhile is_space s)))"

definition strip_slash :: "string \<Rightarrow> string" where
  "strip_slash s = (if s \<noteq> [] \<and> last s = CHR ''/'' then butlast s else s)"

definition normalizeUrl :: "string \<Rightarrow> string" where
  "normalizeUrl serverUrl = trim (strip_slash serverUrl)"

text \<open>\<open>s.split(c)\<close> for a one-character separator; the result is never empty.\<close>

fun split_on :: "char \<Rightarrow> string \<Rightarrow> string list" where
  "split_on c [] = [[]]"
| "split_on c (x # xs) =
     (if x = c then [] # split_on c xs
      else (case split_on c xs of [] \<Rightarrow> [[x]] | p # ps \<Rightarrow> (x # p) # ps))"

text \<open>
  \<open>Number.parseInt(string)\<close> with no radix: leading white space is skipped, a sign
  is read, the prefix \<open>0x\<close> or \<open>0X\<close> selects radix 16, and the longest run of digits
  of the radix is the number; \<open>None\<close> is \<open>NaN\<close>. The number is kept exact: the
  source only compares it with 10 and 7, which rounding to a double cannot change.
\<close>

definition digit_of :: "char \<Rightarrow> nat option" where
  "digit_of c =
     (let n = (of_char c :: nat)
      in if 48 \<le> n \<and> n \<le> 57 then Some (n - 48)
         else if 97 \<le> n \<and> n \<le> 122 then Some (n - 87)
         else if 65 \<le> n \<and> n \<le> 90 then Some (n - 55)
         else None)"

definition is_digit_in :: "nat \<Rightarrow> char \<Rightarrow> bool" where
  "is_digit_in R c = (case digit_of c of None \<Rightarrow> False | Some d \<Rightarrow> d < R)"

definition digits_value :: "nat \<Rightarrow> string \<Rightarrow> nat" where
  "digits_value R ds = foldl (\<lambda>acc c. case digit_of c of None \<Rightarrow> acc | Some d \<Rightarrow> acc * R + d) 0 ds"

definition parseInt :: "string \<Rightarrow> int option" where
  "parseInt inputString =
     (let S = dropWhile is_space inputString;
          negative = (S \<noteq> [] \<and> hd S = CHR ''-'');
          S1 = (if S \<noteq> [] \<and> (hd S = CHR ''-'' \<or> hd S = CHR ''+'') then tl S else S);
          hex = (take 2 S1 = ''0x'' \<or> take 2 S1 = ''0X'');
          R = (if hex then 16 else 10);
          S2 = (if hex then drop 2 S1 else S1);
          Z = takeWhile (is_digit_in R) S2
      in if Z = [] then None
         else Some (if negative then - int (digits_value R Z) else int (digits_value R Z)))"

text \<open>
  \<open>serv.Version?.split('.')[k]\<close> handed to \<open>parseInt\<close>: an absent version or a
  missing segment is \<open>undefined\<close>, which \<open>parseInt\<close> reads as the string
  \<open>undefined\<close>.
\<close>

definition version_segment :: "string js_opt \<Rightarrow> int \<Rightarrow> string" where
  "version_segment version k =
     (case version of
        Val v \<Rightarrow> (case js_index (split_on CHR ''.'' v) k of None \<Rightarrow> ''undefined'' | Some seg \<Rightarrow> seg)
      | _ \<Rightarrow> ''undefined'')"

definition semverMajor :: "string js_opt \<Rightarrow> int option" where
  "semverMajor version = parseInt (version_segment version 0)"

definition semverMinor :: "string js_opt \<Rightarrow> int option" where
  "semverMinor version = parseInt (version_segment version 1)"

text \<open>Comparisons with \<open>NaN\<close> are false.\<close>

definition isServerVersionSupported :: "string js_opt \<Rightarrow> bool" where
  "isServerVersionSupported version =
     (case semverMajor version of
        None \<Rightarrow> False
      | Some major \<Rightarrow>
          major > 10 \<or>
          (major = 10 \<and> (case semverMinor version of None \<Rightarrow> False | Some minor \<Rightarrow> minor \<ge> 7)))"

text \<open>
  lodash's \<open>merge(object, source)\<close> writes every property of \<open>source\<close> that is not
  \<open>undefined\<close> into \<open>object\<close> and returns \<open>object\<close> itself.
\<close>

definition pick :: "'a js_opt \<Rightarrow> 'a js_opt \<Rightarrow> 'a js_opt" where
  "pick dst src = (if src = Undefined then dst else src)"

definition merge :: "ServerInfo \<Rightarrow> ServerInfo \<Rightarrow> ServerInfo" where
  "merge object source =
     \<lparr> srv_Id = pick (srv_Id object) (srv_Id source),
       srv_Version = pick (srv_Version object) (srv_Version source),
       srv_StartupWizardCompleted =
         pick (srv_StartupWizardCompleted object) (srv_StartupWizardCompleted source),
       srv_LocalAddress = pick (srv_LocalAddress object) (srv_LocalAddress source),
       srv_ServerName = pick (srv_ServerName object) (srv_ServerName source),
       srv_PublicAddress = srv_PublicAddress source,
       srv_isDefault = srv_isDefault source \<rparr>"

text \<open>
  What the network gives back: a failure, which is an Axios error (the status of its
  response if there is one, and its message) or some other thrown value (its message,
  empty if it has none), or the data.
\<close>

datatype failure = AxiosError "int option" string | OtherError string

datatype 'a response = Failed failure | Answer 'a

text \<open>A new object is none of the objects of the array.\<close>

definition fresh :: "ref list \<Rightarrow> ref" where
  "fresh rs = Suc (fold max rs 0)"

text \<open>
  \<open>state.value.currentServerIndex = servers.indexOf(servers.find(s => s.PublicAddress
  === serverUrl))\<close>.
\<close>

definition selectServer :: "AuthState \<Rightarrow> string \<Rightarrow> AuthState" where
  "selectServer s serverUrl =
     s\<lparr> currentServerIndex :=
          (case find (\<lambda>r. srv_PublicAddress (objects s r) = serverUrl) (servers s) of
             None \<Rightarrow> - 1
           | Some r \<Rightarrow> indexOf (servers s) r) \<rparr>"

text \<open>
  The object \<open>serv\<close> of lines 108-111: the data of the answer without
  \<open>LocalAddress\<close>, with the address of the call and \<open>isDefault\<close>.
\<close>

definition received :: "PublicSystemInfo \<Rightarrow> string \<Rightarrow> bool \<Rightarrow> ServerInfo" where
  "received data serverUrl isDefault =
     \<lparr> srv_Id = srv_Id data, srv_Version = srv_Version data,
       srv_StartupWizardCompleted = srv_StartupWizardCompleted data,
       srv_LocalAddress = Undefined, srv_ServerName = srv_ServerName data,
       srv_PublicAddress = serverUrl, srv_isDefault = isDefault \<rparr>"

text \<open>
  \<open>connectServer\<close> calls \<open>this.deleteServer(oldServer.PublicAddress)\<close> and does not
  await it. \<open>deleteServer\<close> then runs until its first \<open>await\<close>: to its end when the
  server has no user, else through the first \<open>logoutUser\<close> (which has no \<open>await\<close> of
  its own); what is left of it then (the server and the users still to sign out) is
  unfinished when \<open>connectServer\<close> goes on. A rejection of the call is lost with
  its promise.
\<close>

type_synonym unfinished = "ref \<times> UserDto list"

definition deleteServer_begin ::
  "AuthState \<Rightarrow> string \<Rightarrow> (UserDto \<Rightarrow> settled) \<Rightarrow> AuthState \<times> effect list \<times> unfinished option" where
  "deleteServer_begin s serverUrl net =
     (case find (\<lambda>r. srv_PublicAddress (objects s r) = serverUrl) (servers s) of
        None \<Rightarrow> (s, [], None)
      | Some server \<Rightarrow>
          (case getUsersFromServer s (objects s server) of
             [] \<Rightarrow> (removeServer s server, [], None)
           | u # us \<Rightarrow>
               (case logoutUser s u (objects s server) False (net u) of
                  (_, s1, ev) \<Rightarrow> (s1, ev, Some (server, us)))))"

text \<open>
  An unfinished \<open>deleteServer\<close> goes on one job at a time, on the state it finds:
  the next \<open>logoutUser\<close> up to the next \<open>await\<close>, or, the users done, the splice.
\<close>

definition deleteServer_job ::
  "AuthState \<Rightarrow> (UserDto \<Rightarrow> settled) \<Rightarrow> unfinished \<Rightarrow> AuthState \<times> effect list \<times> unfinished option" where
  "deleteServer_job s net p =
     (case p of
        (server, []) \<Rightarrow> (removeServer s server, [], None)
      | (server, u # us) \<Rightarrow>
          (case logoutUser s u (objects s server) False (net u) of
             (_, s1, ev) \<Rightarrow> (s1, ev, Some (server, us))))"

text \<open>All its jobs, run one after the other with nothing in between.\<close>

definition deleteServer_resume ::
  "AuthState \<Rightarrow> (UserDto \<Rightarrow> settled) \<Rightarrow> unfinished option \<Rightarrow> AuthState \<times> effect list" where
  "deleteServer_resume s net pending =
     (case pending of
        None \<Rightarrow> (s, [])
      | Some (server, us) \<Rightarrow>
          (case logoutUsers s server net us of (s1, ev) \<Rightarrow> (removeServer s1 server, ev)))"

text \<open>
  \<open>connectServer\<close>, lines 93-145: the outcome of its promise, the state and the
  effects when its own code has ended, and the \<open>deleteServer\<close> it has left
  unfinished, if any.
\<close>

definition connectServer_call ::
  "AuthState \<Rightarrow> string \<Rightarrow> bool \<Rightarrow> PublicSystemInfo response \<Rightarrow> (UserDto \<Rightarrow> settled) \<Rightarrow>
     outcome \<times> unfinished option" where
  "connectServer_call s url isDefault answer net =
     (let serverUrl = normalizeUrl url
      in case answer of
           Failed _ \<Rightarrow>
             ((Inl ServerUnreachable, s, [Notify (T ''login.serverNotFound'') ''error'']), None)
         | Answer data \<Rightarrow>
             (let serv = received data serverUrl isDefault
              in if isServerVersionSupported (srv_Version serv)
                 then if \<not> truthy_bool (srv_StartupWizardCompleted serv)
                      then ((Inr (), s, [Navigate ''/wizard'']), None)
                      else (case getServerById s (srv_Id serv) of
                              Some oldServer \<Rightarrow>
                                (case deleteServer_begin s (srv_PublicAddress (objects s oldServer)) net of
                                   (s1, ev1, pending) \<Rightarrow>
                                     (let s2 = s1\<lparr> objects := (objects s1)(oldServer := merge (objects s1 oldServer) serv),
                                                    servers := servers s1 @ [oldServer] \<rparr>
                                      in ((Inr (), selectServer s2 serverUrl, ev1), pending)))
                            | None \<Rightarrow>
                                (let r = fresh (servers s);
                                     s2 = s\<lparr> objects := (objects s)(r := serv),
                                              servers := servers s @ [r] \<rparr>
                                 in ((Inr (), selectServer s2 serverUrl, []), None)))
                 else ((Inl VersionUnsupported, s,
                        [Notify (T ''login.serverVersionTooLow'') ''error'']), None)))"

definition connectServer ::
  "AuthState \<Rightarrow> string \<Rightarrow> bool \<Rightarrow> PublicSystemInfo response \<Rightarrow> (UserDto \<Rightarrow> settled) \<Rightarrow> outcome" where
  "connectServer s url isDefault answer net = fst (connectServer_call s url isDefault answer net)"

definition connectServer_unfinished ::
  "AuthState \<Rightarrow> string \<Rightarrow> bool \<Rightarrow> PublicSystemInfo response \<Rightarrow> (UserDto \<Rightarrow> settled) \<Rightarrow>
     unfinished option" where
  "connectServer_unfinished s url isDefault answer net =
     snd (connectServer_call s url isDefault answer net)"

text \<open>
  The call and, right after it, all the jobs of the \<open>deleteServer\<close> it left
  unfinished: the state once everything the call started has ended.
\<close>

definition connectServer_settled ::
  "AuthState \<Rightarrow> string \<Rightarrow> bool \<Rightarrow> PublicSystemInfo response \<Rightarrow> (UserDto \<Rightarrow> settled) \<Rightarrow> outcome" where
  "connectServer_settled s url isDefault answer net =
     (case connectServer_call s url isDefault answer net of
        ((res, s1, ev1), pending) \<Rightarrow>
          (case deleteServer_resume s1 net pending of (s2, ev2) \<Rightarrow> (res, s2, ev1 @ ev2)))"

subsection \<open>loginUser (lines 153-194)\<close>

record AuthenticationResult =
  auth_User :: "UserDto option"
  auth_AccessToken :: "string js_opt"

text \<open>The message of the \<open>catch\<close> block, from the response's status and \<open>error.message\<close>.\<close>

definition loginErrorMessage :: "int option \<Rightarrow> string \<Rightarrow> message" where
  "loginErrorMessage status msg =
     (case status of
        None \<Rightarrow> (if msg \<noteq> [] then Lit msg else T ''login.serverNotFound'')
      | Some st \<Rightarrow>
          (if st = 500 \<or> st = 401 then T ''incorrectUsernameOrPassword''
           else if st = 400 then T ''badRequest''
           else Lit ''unexpectedError''))"

text \<open>
  \<open>users.indexOf(data.User)\<close> after the push is the position of the object just
  pushed, the last one.
\<close>

definition loginUser ::
  "AuthState \<Rightarrow> string \<Rightarrow> string \<Rightarrow> bool \<Rightarrow> AuthenticationResult response \<Rightarrow> outcome" where
  "loginUser s username password remember answer =
     (case currentServer s of
        None \<Rightarrow> (Inl NoCurrentServer, s, [])
      | Some server \<Rightarrow>
          (case answer of
             Answer data \<Rightarrow>
               (let s1 = s\<lparr> rememberMe := remember \<rparr>
                in case auth_User data of
                     None \<Rightarrow> (Inr (), s1, [])
                   | Some user \<Rightarrow>
                       (if truthy_str (usr_Id user) \<and> truthy_str (auth_AccessToken data)
                        then (Inr (),
                              s1\<lparr> accessTokens :=
                                     (accessTokens s1)(key_of (usr_Id user) \<mapsto> key_of (auth_AccessToken data)),
                                   users := users s1 @ [user],
                                   currentUserIndex := int (length (users s1)) \<rparr>,
                              [])
                        else (Inr (), s1, [])))
           | Failed (AxiosError status msg) \<Rightarrow>
               (Inr (), s, [Notify (loginErrorMessage status msg) ''error''])
           | Failed (OtherError msg) \<Rightarrow> (Inr (), s, [])))"

subsection \<open>logoutInterceptor (lines 384-398)\<close>

text \<open>\<open>s.includes(sub)\<close>.\<close>

fun str_includes :: "string \<Rightarrow> string \<Rightarrow> bool" where
  "str_includes [] sub = (sub = [])"
| "str_includes (x # xs) sub = (take (length sub) (x # xs) = sub \<or> str_includes xs sub)"

text \<open>The Axios error a response hook receives: \<open>response?.status\<close> and \<open>config?.url\<close>.\<close>

record ResponseError =
  err_status :: "int option"
  err_url :: "string option"

text \<open>
  \<open>auth.currentUser\<close> in the condition is the computed reference of line 59 itself,
  not its \<open>.value\<close>: it is an object, so it is truthy in every state.
  \<open>!error.config?.url?.includes(...)\<close> is true when there is no URL. The hook always
  throws the error it was given.
\<close>

definition currentUser_ref_truthy :: "AuthState \<Rightarrow> bool" where
  "currentUser_ref_truthy s = True"

definition logoutInterceptor ::
  "AuthState \<Rightarrow> ResponseError \<Rightarrow> settled \<Rightarrow> (ResponseError + unit) \<times> AuthState \<times> effect list" where
  "logoutInterceptor s err remote =
     (if err_status err = Some 401 \<and> currentUser_ref_truthy s \<and>
         \<not> (case err_url err of None \<Rightarrow> False | Some url \<Rightarrow> str_includes url ''/Sessions/Logout'')
      then (case logoutCurrentUser s True remote of
              (_, s1, ev) \<Rightarrow> (Inl err, s1, ev @ [Notify (T ''kickedOut'') ''error'']))
      else (Inl err, s, []))"

subsection \<open>The earlier store (authStore)\<close>

text \<open>
  \<^verbatim>\<open>src/frontend/store/auth.ts\<close> holds an earlier form of the same methods, on the
  same state. Its \<open>logoutUser(clearUser, skipRequest)\<close> (lines 152-168) awaits the
  request inside \<open>try\<close>/\<open>finally\<close>, so a rejection is handed on after the
  \<open>finally\<close> block; that block acts on the current user, and the filter
  \<open>user === this.currentUser\<close> keeps the one element that is the current user.
\<close>

definition authStore_logoutUser ::
  "AuthState \<Rightarrow> bool \<Rightarrow> bool \<Rightarrow> settled \<Rightarrow> (error + unit) \<times> AuthState" where
  "authStore_logoutUser s clearUser skipRequest remote =
     (let s1 = (if clearUser
                then (case currentUser s of
                        None \<Rightarrow> s
                      | Some cu \<Rightarrow>
                          s\<lparr> accessTokens := (accessTokens s)(key_of (usr_Id cu) := None),
                             users := [cu],
                             currentUserIndex := - 1 \<rparr>)
                else s)
      in (if \<not> skipRequest \<and> remote = Rejected then Inl RequestRejected else Inr (), s1))"

text \<open>
  \<open>deleteServer\<close> (lines 174-203). The loop awaits \<open>logoutUser(false)\<close> and then
  deletes the user's token; a rejection ends the method there. Afterwards the users
  are filtered by \<open>users.includes(user)\<close>, \<open>users\<close> being the users of the server,
  and \<open>this.servers\<close> is assigned what \<open>splice\<close> returns, the elements removed.
\<close>

definition spliced1 :: "int \<Rightarrow> 'a list \<Rightarrow> 'a list" where
  "spliced1 i xs =
     (let n = int (length xs);
          start = (if i < 0 then max (n + i) 0 else min i n)
      in take 1 (drop (nat start) xs))"

fun authStore_logoutAll ::
  "AuthState \<Rightarrow> (UserDto \<Rightarrow> settled) \<Rightarrow> UserDto list \<Rightarrow> (error + unit) \<times> AuthState" where
  "authStore_logoutAll s net [] = (Inr (), s)"
| "authStore_logoutAll s net (u # us) =
     (case authStore_logoutUser s False False (net u) of
        (Inl e, s1) \<Rightarrow> (Inl e, s1)
      | (Inr _, s1) \<Rightarrow>
          authStore_logoutAll (s1\<lparr> accessTokens := (accessTokens s1)(key_of (usr_Id u) := None) \<rparr>)
            net us)"

definition authStore_deleteServer ::
  "AuthState \<Rightarrow> string \<Rightarrow> (UserDto \<Rightarrow> settled) \<Rightarrow> (error + unit) \<times> AuthState" where
  "authStore_deleteServer s serverUrl net =
     (case find (\<lambda>r. srv_PublicAddress (objects s r) = serverUrl) (servers s) of
        None \<Rightarrow> (Inl ServerUnknown, s)
      | Some server \<Rightarrow>
          (let users' = getUsersFromServer s (objects s server)
           in case authStore_logoutAll s net users' of
                (Inl e, s1) \<Rightarrow> (Inl e, s1)
              | (Inr _, s1) \<Rightarrow>
                  (let s2 = s1\<lparr> users := filter (\<lambda>user. user \<in> set users') (users s1) \<rparr>
                   in (Inr (),
                       s2\<lparr> servers := spliced1 (indexOf (servers s2) server) (servers s2) \<rparr>))))"

text \<open>
  \<open>loginUser\<close> (lines 94-145): on success it writes what the later method writes;
  on failure it classifies whatever was thrown, notifies, and throws it again.
\<close>

definition authStore_loginUser ::
  "AuthState \<Rightarrow> string \<Rightarrow> string \<Rightarrow> bool \<Rightarrow> AuthenticationResult response \<Rightarrow> outcome" where
  "authStore_loginUser s username password remember answer =
     (case currentServer s of
        None \<Rightarrow> (Inl NoCurrentServer, s, [])
      | Some server \<Rightarrow>
          (case answer of
             Answer data \<Rightarrow> loginUser s username password remember (Answer data)
           | Failed (AxiosError status msg) \<Rightarrow>
               (Inl RequestRejected, s, [Notify (loginErrorMessage status msg) ''error''])
           | Failed (OtherError msg) \<Rightarrow>
               (Inl RequestRejected, s, [Notify (loginErrorMessage None msg) ''error''])))"

text \<open>
  \<open>connectServer\<close> (lines 43-86): the trailing slash is taken off and nothing is
  trimmed, the answer keeps its \<open>LocalAddress\<close>, and a server whose \<open>Id\<close> is
  registered is neither pushed nor merged: only the selector is written.
\<close>

definition authStore_connectServer ::
  "AuthState \<Rightarrow> string \<Rightarrow> bool \<Rightarrow> PublicSystemInfo response \<Rightarrow> outcome" where
  "authStore_connectServer s url isDefault answer =
     (let serverUrl = strip_slash url
      in case answer of
           Failed _ \<Rightarrow>
             (Inl ServerUnreachable, s, [Notify (T ''login.serverNotFound'') ''error''])
         | Answer data \<Rightarrow>
             (let serv = \<lparr> srv_Id = srv_Id data, srv_Version = srv_Version data,
                           srv_StartupWizardCompleted = srv_StartupWizardCompleted data,
                           srv_LocalAddress = srv_LocalAddress data,
                           srv_ServerName = srv_ServerName data,
                           srv_PublicAddress = serverUrl, srv_isDefault = isDefault \<rparr>
              in if isServerVersionSupported (srv_Version serv)
                 then if \<not> truthy_bool (srv_StartupWizardCompleted serv)
                      then (Inr (), s, [Navigate ''/wizard''])
                      else (case getServerById s (srv_Id serv) of
                              Some oldServer \<Rightarrow> (Inr (), selectServer s serverUrl, [])
                            | None \<Rightarrow>
                                (let r = fresh (servers s);
                                     s2 = s\<lparr> objects := (objects s)(r := serv),
                                              servers := servers s @ [r] \<rparr>
                                 in (Inr (), selectServer s2 serverUrl, [])))
                 else (Inl VersionUnsupported, s,
                       [Notify (T ''login.serverVersionTooLow'') ''error''])))"

subsection \<open>Sequences of operations\<close>

text \<open>
  A moment of the Session Manager is the state of the store together with the
  \<open>deleteServer\<close> calls that are unfinished: those that \<open>connectServer\<close> started
  and did not await, and those during which other operations run. A step is one
  operation, whatever its arguments and whatever the network answers, from the call
  to the end of its own code (an operation that is awaited by its caller, as the
  source awaits \<open>logoutUser\<close>, is one step with what it awaits), or the beginning
  of a \<open>deleteServer\<close>, up to its first \<open>await\<close>, or one job of an unfinished
  \<open>deleteServer\<close>. The states that can be reached are those of the moments that
  steps lead to from the initial state.
\<close>

fun jobs_of :: "unfinished option \<Rightarrow> unfinished list" where
  "jobs_of None = []"
| "jobs_of (Some p) = [p]"

inductive step :: "AuthState \<times> unfinished list \<Rightarrow> AuthState \<times> unfinished list \<Rightarrow> bool" where
  connect: "connectServer_call s url isDefault answer net = ((res, s', ev), pending) \<Longrightarrow>
              step (s, ps) (s', ps @ jobs_of pending)"
| login: "loginUser s username password remember answer = (res, s', ev) \<Longrightarrow> step (s, ps) (s', ps)"
| logout: "logoutUser s user server skipRequest remote = (res, s', ev) \<Longrightarrow> step (s, ps) (s', ps)"
| logoutCurrent: "logoutCurrentUser s skipRequest remote = (res, s', ev) \<Longrightarrow> step (s, ps) (s', ps)"
| delete: "deleteServer s serverUrl net = (res, s', ev) \<Longrightarrow> step (s, ps) (s', ps)"
| delete_begin: "deleteServer_begin s serverUrl net = (s', ev, pending) \<Longrightarrow>
                   step (s, ps) (s', ps @ jobs_of pending)"
| job: "deleteServer_job s net p = (s', ev, pending) \<Longrightarrow>
          step (s, ps1 @ p # ps2) (s', ps1 @ jobs_of pending @ ps2)"

inductive reaches :: "AuthState \<times> unfinished list \<Rightarrow> bool" where
  start: "reaches (initial h, [])"
| after: "reaches w \<Longrightarrow> step w w' \<Longrightarrow> reaches w'"

definition reachable :: "AuthState \<Rightarrow> bool" where
  "reachable s = (\<exists>ps. reaches (s, ps))"

subsection \<open>Notions used in the statements and in their proofs\<close>

text \<open>The list without the first element that satisfies a predicate.\<close>

fun del_first :: "('a \<Rightarrow> bool) \<Rightarrow> 'a list \<Rightarrow> 'a list" where
  "del_first Q [] = []"
| "del_first Q (x # xs) = (if Q x then xs else x # del_first Q xs)"

text \<open>Every key of the token map is the identifier of a user of the registry.\<close>

definition tokens_covered :: "AuthState \<Rightarrow> bool" where
  "tokens_covered s = (\<forall>k \<in> dom (accessTokens s). \<exists>u \<in> set (users s). usr_Id u = Val k)"






text \<open>A selector is the sentinel or the position of an element.\<close>

definition selector_ok :: "int \<Rightarrow> 'a list \<Rightarrow> bool" where
  "selector_ok i xs = (i = - 1 \<or> (0 \<le> i \<and> i < int (length xs)))"

subsection \<open>Example data\<close>

definition blank :: ServerInfo where
  "blank = \<lparr> srv_Id = Undefined, srv_Version = Undefined, srv_StartupWizardCompleted = Undefined,
             srv_LocalAddress = Undefined, srv_ServerName = Undefined,
             srv_PublicAddress = [], srv_isDefault = False \<rparr>"

definition info_A :: PublicSystemInfo where
  "info_A = \<lparr> srv_Id = Val ''A'', srv_Version = Val ''10.8.0'',
              srv_StartupWizardCompleted = Val True, srv_LocalAddress = Val ''10.0.0.1'',
              srv_ServerName = Val ''Home'' \<rparr>"

definition info_B :: PublicSystemInfo where
  "info_B = \<lparr> srv_Id = Val ''B'', srv_Version = Val ''10.8.0'',
              srv_StartupWizardCompleted = Val True, srv_LocalAddress = Undefined,
              srv_ServerName = Val ''Office'' \<rparr>"

definition info_old :: PublicSystemInfo where
  "info_old = \<lparr> srv_Id = Val ''A'', srv_Version = Val ''10.6.9'',
                srv_StartupWizardCompleted = Val True, srv_LocalAddress = Undefined,
                srv_ServerName = Undefined \<rparr>"

text \<open>A later answer of server \<open>A\<close>: a newer version, and no name.\<close>

definition info_A_later :: PublicSystemInfo where
  "info_A_later = \<lparr> srv_Id = Val ''A'', srv_Version = Val ''10.9.0'',
                    srv_StartupWizardCompleted = Val True, srv_LocalAddress = Undefined,
                    srv_ServerName = Undefined \<rparr>"

definition server_A :: ServerInfo where
  "server_A = \<lparr> srv_Id = Val ''A'', srv_Version = Val ''10.8.0'',
                srv_StartupWizardCompleted = Val True, srv_LocalAddress = Undefined,
                srv_ServerName = Val ''Home'',
                srv_PublicAddress = ''http://a'', srv_isDefault = False \<rparr>"

definition server_B :: ServerInfo where
  "server_B = \<lparr> srv_Id = Val ''B'', srv_Version = Val ''10.8.0'',
                srv_StartupWizardCompleted = Val True, srv_LocalAddress = Undefined,
                srv_ServerName = Val ''Office'',
                srv_PublicAddress = ''http://b'', srv_isDefault = False \<rparr>"

definition user_1 :: UserDto where
  "user_1 = \<lparr> usr_Id = Val ''u1'', usr_ServerId = Val ''A'', usr_Name = Val ''ann'' \<rparr>"

definition user_2 :: UserDto where
  "user_2 = \<lparr> usr_Id = Val ''u2'', usr_ServerId = Val ''A'', usr_Name = Val ''bob'' \<rparr>"

text \<open>A user of server \<open>B\<close> that carries the identifier of \<open>user_1\<close>.\<close>

definition user_1B :: UserDto where
  "user_1B = \<lparr> usr_Id = Val ''u1'', usr_ServerId = Val ''B'', usr_Name = Val ''ann'' \<rparr>"

definition user_3 :: UserDto where
  "user_3 = \<lparr> usr_Id = Val ''u3'', usr_ServerId = Val ''B'', usr_Name = Val ''cy'' \<rparr>"

definition no_servers :: "ref \<Rightarrow> ServerInfo" where
  "no_servers = (\<lambda>_. blank)"

definition one_server :: "ref \<Rightarrow> ServerInfo" where
  "one_server = no_servers(1 := server_A)"

definition two_servers :: "ref \<Rightarrow> ServerInfo" where
  "two_servers = one_server(2 := server_B)"

text \<open>One server, two users signed in on it, the second one current.\<close>

definition state_A12 :: AuthState where
  "state_A12 = \<lparr> servers = [1], currentServerIndex = 0, currentUserIndex = 1,
                 users = [user_1, user_2], rememberMe = True,
                 accessTokens = [''u1'' \<mapsto> ''t1'', ''u2'' \<mapsto> ''t2''],
                 objects = one_server \<rparr>"

text \<open>Two servers, a user on each, both users with the same identifier.\<close>

definition state_shared_id :: AuthState where
  "state_shared_id = \<lparr> servers = [1, 2], currentServerIndex = 1, currentUserIndex = 1,
                       users = [user_1, user_1B], rememberMe = True,
                       accessTokens = [''u1'' \<mapsto> ''t1''],
                       objects = two_servers \<rparr>"

text \<open>Two servers, the second current, and one user, of the second server.\<close>

definition state_AB3 :: AuthState where
  "state_AB3 = \<lparr> servers = [1, 2], currentServerIndex = 1, currentUserIndex = 0,
                 users = [user_3], rememberMe = True,
                 accessTokens = [''u3'' \<mapsto> ''t3''],
                 objects = two_servers \<rparr>"

text \<open>Two servers with one user each.\<close>

definition state_A1B3 :: AuthState where
  "state_A1B3 = \<lparr> servers = [1, 2], currentServerIndex = 1, currentUserIndex = 1,
                  users = [user_1, user_3], rememberMe = True,
                  accessTokens = [''u1'' \<mapsto> ''t1'', ''u3'' \<mapsto> ''t3''],
                  objects = two_servers \<rparr>"

text \<open>The states of a run: server \<open>A\<close> is connected, then a first user signs in.\<close>

definition run_1 :: AuthState where
  "run_1 = \<lparr> servers = [1], currentServerIndex = 0, currentUserIndex = - 1,
              users = [], rememberMe = True, accessTokens = Map.empty, objects = one_server \<rparr>"

definition run_2 :: AuthState where
  "run_2 = \<lparr> servers = [1], currentServerIndex = 0, currentUserIndex = 0,
              users = [user_1], rememberMe = True, accessTokens = [''u1'' \<mapsto> ''t1''],
              objects = one_server \<rparr>"

text \<open>Server \<open>B\<close> is connected after the first user signed in on \<open>A\<close>.\<close>

definition run_2B :: AuthState where
  "run_2B = \<lparr> servers = [1, 2], currentServerIndex = 1, currentUserIndex = 0,
               users = [user_1], rememberMe = True, accessTokens = [''u1'' \<mapsto> ''t1''],
               objects = two_servers \<rparr>"


text \<open>Server \<open>B\<close> is connected after server \<open>A\<close>.\<close>

definition run_AB :: AuthState where
  "run_AB = \<lparr> servers = [1, 2], currentServerIndex = 1, currentUserIndex = - 1,
               users = [], rememberMe = True, accessTokens = Map.empty, objects = two_servers \<rparr>"

section \<open>Properties\<close>

subsection \<open>Arrays\<close>

lemma findIndex_None_iff: "findIndex P xs = None \<longleftrightarrow> (\<forall>x \<in> set xs. \<not> P x)"
  by (induction xs) auto

lemma findIndex_Some_bound: "findIndex P xs = Some i \<Longrightarrow> i < length xs \<and> P (xs ! i)"
  by (induction xs arbitrary: i) (auto split: if_splits)

lemma splice1_nat: "i < length xs \<Longrightarrow> splice1 (int i) xs = take i xs @ drop (Suc i) xs"
  by (simp add: splice1_def Let_def min_def)

lemma findIndex_del_first:
  "findIndex Q xs = Some i \<Longrightarrow> take i xs @ drop (Suc i) xs = del_first Q xs"
  by (induction xs arbitrary: i) (auto split: if_splits)

lemma del_first_none: "\<forall>x \<in> set xs. \<not> Q x \<Longrightarrow> del_first Q xs = xs"
  by (induction xs) auto

lemma splice_found:
  "(case findIndex Q xs of None \<Rightarrow> xs | Some i \<Rightarrow> splice1 (int i) xs) = del_first Q xs"
proof (cases "findIndex Q xs")
  case None
  then have "\<forall>x \<in> set xs. \<not> Q x" by (simp add: findIndex_None_iff)
  with None show ?thesis by (simp add: del_first_none)
next
  case (Some i)
  then show ?thesis
    using findIndex_Some_bound[OF Some] findIndex_del_first[OF Some] by (simp add: splice1_nat)
qed

lemma del_first_eq_remove1: "del_first (\<lambda>y. y = x) xs = remove1 x xs"
  by (induction xs) auto

lemma splice_indexOf: "splice1 (indexOf xs x) xs = (if x \<in> set xs then remove1 x xs else butlast xs)"
proof (cases "findIndex (\<lambda>y. y = x) xs")
  case None
  then have nin: "x \<notin> set xs" by (auto simp: findIndex_None_iff)
  have "splice1 (- 1) xs = butlast xs"
    by (cases xs rule: rev_cases) (auto simp: splice1_def Let_def max_def)
  with None nin show ?thesis by (simp add: indexOf_def)
next
  case (Some i)
  then have "x \<in> set xs" using findIndex_None_iff[of "\<lambda>y. y = x" xs] by auto
  then show ?thesis
    using Some findIndex_Some_bound[OF Some] findIndex_del_first[OF Some]
    by (simp add: indexOf_def splice1_nat del_first_eq_remove1)
qed

lemma set_del_first: "set (del_first Q xs) \<subseteq> set xs"
  by (induction xs) auto

lemma del_first_keeps: "x \<in> set xs \<Longrightarrow> \<not> Q x \<Longrightarrow> x \<in> set (del_first Q xs)"
  by (induction xs) auto

subsection \<open>logoutUser in closed form\<close>

lemma logoutUser_eq:
  "logoutUser s user server skipRequest remote =
     (Inr (),
      s\<lparr> users := del_first (\<lambda>u. usr_Id u = usr_Id user) (users s),
         accessTokens := (accessTokens s)(key_of (usr_Id user) := None) \<rparr>,
      if skipRequest then []
      else [RemoteLogout (srv_PublicAddress server) (getUserAccessToken s (Some user))])"
  by (simp add: logoutUser_def Let_def splice_found)

lemma del_first_only:
  "Q x \<Longrightarrow> \<forall>v \<in> set xs. Q v \<longrightarrow> v = x \<Longrightarrow> del_first Q xs = remove1 x xs"
  by (induction xs) auto

lemma currentServer_state_A12: "currentServer state_A12 = Some server_A"
  by (simp add: currentServer_def state_A12_def js_index_def one_server_def no_servers_def)

subsection \<open>Steps\<close>

lemma reachable_start: "reachable (initial h)"
  unfolding reachable_def using reaches.start by blast

lemma reachable_connect:
  assumes "reachable s" and "connectServer s url isDefault answer net = (res, s', ev)"
  shows "reachable s'"
proof -
  from assms(1) obtain ps where r: "reaches (s, ps)" by (auto simp: reachable_def)
  obtain pending where "connectServer_call s url isDefault answer net = ((res, s', ev), pending)"
    using assms(2) by (cases "connectServer_call s url isDefault answer net") (simp add: connectServer_def)
  from reaches.after[OF r step.connect[OF this]] show ?thesis by (auto simp: reachable_def)
qed

lemma reachable_login:
  assumes "reachable s" and "loginUser s username password remember answer = (res, s', ev)"
  shows "reachable s'"
proof -
  from assms(1) obtain ps where r: "reaches (s, ps)" by (auto simp: reachable_def)
  from reaches.after[OF r step.login[OF assms(2)]] show ?thesis by (auto simp: reachable_def)
qed

lemma reachable_logout:
  assumes "reachable s" and "logoutUser s user server skipRequest remote = (res, s', ev)"
  shows "reachable s'"
proof -
  from assms(1) obtain ps where r: "reaches (s, ps)" by (auto simp: reachable_def)
  from reaches.after[OF r step.logout[OF assms(2)]] show ?thesis by (auto simp: reachable_def)
qed

lemma reachable_logoutCurrent:
  assumes "reachable s" and "logoutCurrentUser s skipRequest remote = (res, s', ev)"
  shows "reachable s'"
proof -
  from assms(1) obtain ps where r: "reaches (s, ps)" by (auto simp: reachable_def)
  from reaches.after[OF r step.logoutCurrent[OF assms(2)]] show ?thesis by (auto simp: reachable_def)
qed

lemma reachable_delete:
  assumes "reachable s" and "deleteServer s serverUrl net = (res, s', ev)"
  shows "reachable s'"
proof -
  from assms(1) obtain ps where r: "reaches (s, ps)" by (auto simp: reachable_def)
  from reaches.after[OF r step.delete[OF assms(2)]] show ?thesis by (auto simp: reachable_def)
qed

text \<open>The jobs of an unfinished \<open>deleteServer\<close>, run to the last, are steps.\<close>

lemma reaches_resume:
  "reaches (s, ps @ [(server, us)]) \<Longrightarrow> deleteServer_resume s net (Some (server, us)) = (s', ev) \<Longrightarrow>
     reaches (s', ps)"
proof (induction us arbitrary: s ev)
  case Nil
  then have j: "deleteServer_job s net (server, []) = (s', [], None)"
    by (simp add: deleteServer_resume_def deleteServer_job_def)
  from reaches.after[OF Nil.prems(1) step.job[OF j, of ps "[]"]] show ?case by simp
next
  case (Cons u us)
  obtain r1 s1 e1 where l: "logoutUser s u (objects s server) False (net u) = (r1, s1, e1)"
    by (metis prod_cases3)
  then have j: "deleteServer_job s net (server, u # us) = (s1, e1, Some (server, us))"
    by (simp add: deleteServer_job_def)
  from reaches.after[OF Cons.prems(1) step.job[OF j, of ps "[]"]]
  have r: "reaches (s1, ps @ [(server, us)])" by simp
  obtain s2 e2 where ls: "logoutUsers s1 server net us = (s2, e2)" by fastforce
  with Cons.prems(2) l have "s' = removeServer s2 server"
    by (simp add: deleteServer_resume_def)
  with ls have "deleteServer_resume s1 net (Some (server, us)) = (s', e2)"
    by (simp add: deleteServer_resume_def)
  from Cons.IH[OF r this] show ?case .
qed

lemma reachable_connect_settled:
  assumes "reachable s" and "connectServer_settled s url isDefault answer net = (res, s', ev)"
  shows "reachable s'"
proof -
  from assms(1) obtain ps where r: "reaches (s, ps)" by (auto simp: reachable_def)
  obtain r1 s1 e1 pending where c: "connectServer_call s url isDefault answer net = ((r1, s1, e1), pending)"
    by (metis prod.collapse)
  from reaches.after[OF r step.connect[OF c]] have r1: "reaches (s1, ps @ jobs_of pending)" .
  obtain s2 e2 where d: "deleteServer_resume s1 net pending = (s2, e2)" by fastforce
  with assms(2) c have s': "s' = s2" by (simp add: connectServer_settled_def)
  show ?thesis
  proof (cases pending)
    case None
    with d r1 s' show ?thesis by (auto simp: deleteServer_resume_def reachable_def)
  next
    case (Some p)
    obtain server us where p: "p = (server, us)" by fastforce
    from reaches_resume[of s1 ps server us net s2 e2] r1 d Some p s'
    show ?thesis by (auto simp: reachable_def)
  qed
qed

text \<open>
  \<open>deleteServer\<close> as one step is its beginning and then all its jobs, with
  nothing in between.
\<close>

lemma deleteServer_begin_resume:
  assumes "find (\<lambda>r. srv_PublicAddress (objects s r) = serverUrl) (servers s) = Some server"
    and "deleteServer_begin s serverUrl net = (s1, ev1, pending)"
    and "deleteServer_resume s1 net pending = (s2, ev2)"
  shows "deleteServer s serverUrl net = (Inr (), s2, ev1 @ ev2)"
proof (cases "getUsersFromServer s (objects s server)")
  case Nil
  with assms show ?thesis
    by (auto simp: deleteServer_def deleteServer_begin_def deleteServer_resume_def)
next
  case (Cons u us)
  with assms show ?thesis
    by (auto simp: deleteServer_def deleteServer_begin_def deleteServer_resume_def logoutUser_eq
        split: prod.splits)
qed


subsection \<open>A run of the Session Manager\<close>

lemma supported_10_8_0: "isServerVersionSupported (Val ''10.8.0'')"
  by code_simp

lemma normalizeUrl_a: "normalizeUrl ''http://a/'' = ''http://a''"
  by code_simp

lemma normalizeUrl_b: "normalizeUrl ''http://b'' = ''http://b''"
  by code_simp

lemma connect_A:
  "connectServer (initial no_servers) ''http://a/'' False (Answer info_A) (\<lambda>_. Fulfilled) =
     (Inr (), run_1, [])"
  by (simp add: run_1_def connectServer_def connectServer_call_def received_def Let_def supported_10_8_0 normalizeUrl_a info_A_def
      initial_def getServerById_def fresh_def selectServer_def indexOf_def server_A_def
      one_server_def)

lemma login_1:
  "loginUser run_1 ''ann'' ''pw'' True
     (Answer \<lparr> auth_User = Some user_1, auth_AccessToken = Val ''t1'' \<rparr>) = (Inr (), run_2, [])"
  by (simp add: run_1_def run_2_def loginUser_def Let_def currentServer_def js_index_def
      user_1_def)

lemma login_2:
  "loginUser run_2 ''bob'' ''pw'' True
     (Answer \<lparr> auth_User = Some user_2, auth_AccessToken = Val ''t2'' \<rparr>) = (Inr (), state_A12, [])"
  by (simp add: run_2_def state_A12_def loginUser_def Let_def currentServer_def js_index_def
      user_2_def)

lemma reachable_run_1: "reachable run_1"
  using reachable_connect[OF reachable_start connect_A] .

lemma reachable_state_A12: "reachable state_A12"
  using reachable_login[OF reachable_login[OF reachable_run_1 login_1] login_2] .

lemma fresh_after_1: "fresh [Suc 0] = 2"
  by (simp add: fresh_def)

lemma connect_B:
  "connectServer run_1 ''http://b'' False (Answer info_B) (\<lambda>_. Fulfilled) = (Inr (), run_AB, [])"
  by (simp add: run_1_def run_AB_def connectServer_def connectServer_call_def received_def Let_def supported_10_8_0 normalizeUrl_b
      info_B_def getServerById_def fresh_after_1 selectServer_def indexOf_def server_A_def
      server_B_def one_server_def two_servers_def no_servers_def)

lemma login_3:
  "loginUser run_AB ''cy'' ''pw'' True
     (Answer \<lparr> auth_User = Some user_3, auth_AccessToken = Val ''t3'' \<rparr>) = (Inr (), state_AB3, [])"
  by (simp add: run_AB_def state_AB3_def loginUser_def Let_def currentServer_def js_index_def
      user_3_def)

lemma reachable_state_AB3: "reachable state_AB3"
  using reachable_login[OF reachable_connect[OF reachable_run_1 connect_B] login_3] .

lemma delete_A:
  "deleteServer state_AB3 ''http://a'' (\<lambda>_. Fulfilled) = (Inr (), state_AB3\<lparr> servers := [2] \<rparr>, [])"
  by (simp add: deleteServer_def state_AB3_def two_servers_def one_server_def server_A_def
      server_B_def getUsersFromServer_def user_3_def removeServer_def indexOf_def splice1_def)

lemma connect_B_after_login:
  "connectServer run_2 ''http://b'' False (Answer info_B) (\<lambda>_. Fulfilled) = (Inr (), run_2B, [])"
  by (simp add: run_2_def run_2B_def connectServer_def connectServer_call_def received_def Let_def supported_10_8_0 normalizeUrl_b
      info_B_def getServerById_def fresh_after_1 selectServer_def indexOf_def server_A_def
      server_B_def one_server_def two_servers_def no_servers_def)

lemma reachable_run_2B: "reachable run_2B"
  using reachable_connect[OF reachable_login[OF reachable_run_1 login_1] connect_B_after_login] .

lemma normalizeUrl_a_plain: "normalizeUrl ''http://a'' = ''http://a''"
  by code_simp

lemma login_1B:
  "loginUser run_2B ''ann'' ''pw'' True
     (Answer \<lparr> auth_User = Some user_1B, auth_AccessToken = Val ''t1'' \<rparr>) =
     (Inr (), state_shared_id, [])"
  by (simp add: run_2B_def state_shared_id_def loginUser_def Let_def currentServer_def
      js_index_def user_1B_def)

lemma reachable_state_shared_id: "reachable state_shared_id"
  using reachable_login[OF reachable_run_2B login_1B] .

subsection \<open>logoutUser\<close>

text \<open>
  Claim C2, as the source has it. \<open>logoutUser(user, server, skipRequest)\<close> resolves,
  however the remote request settles and whether or not it is made. It takes out of
  the user registry the first record that carries the identifier of \<open>user\<close> (no
  record when none carries it), deletes the token kept under that identifier, and
  leaves the servers, both selectors and \<open>rememberMe\<close> as they were. When every
  record of the registry that carries the identifier is \<open>user\<close> itself, what is
  taken out is that user's record.
\<close>

theorem logoutUser_removes_first_with_id:
  assumes "logoutUser s user server skipRequest remote = (res, s', ev)"
  shows "res = Inr () \<and>
         users s' = del_first (\<lambda>u. usr_Id u = usr_Id user) (users s) \<and>
         accessTokens s' = (accessTokens s)(key_of (usr_Id user) := None) \<and>
         servers s' = servers s \<and> objects s' = objects s \<and>
         currentServerIndex s' = currentServerIndex s \<and>
         currentUserIndex s' = currentUserIndex s \<and> rememberMe s' = rememberMe s \<and>
         ((\<forall>v \<in> set (users s). usr_Id v = usr_Id user \<longrightarrow> v = user) \<longrightarrow>
            users s' = remove1 user (users s))"
proof -
  have s': "s' = s\<lparr> users := del_first (\<lambda>u. usr_Id u = usr_Id user) (users s),
                     accessTokens := (accessTokens s)(key_of (usr_Id user) := None) \<rparr>"
    and res: "res = Inr ()"
    using assms by (simp_all add: logoutUser_eq)
  have "(\<forall>v \<in> set (users s). usr_Id v = usr_Id user \<longrightarrow> v = user) \<longrightarrow>
          del_first (\<lambda>u. usr_Id u = usr_Id user) (users s) = remove1 user (users s)"
    using del_first_only[of "\<lambda>u. usr_Id u = usr_Id user" user "users s"] by simp
  with s' res show ?thesis by simp
qed

text \<open>The theorem at work: the second of two users is signed out, the request fails.\<close>

theorem logoutUser_removes_first_with_id_witness:
  "users (fst (snd (logoutUser state_A12 user_2 server_A False Rejected))) = [user_1] \<and>
   accessTokens (fst (snd (logoutUser state_A12 user_2 server_A False Rejected))) ''u2'' = None \<and>
   accessTokens (fst (snd (logoutUser state_A12 user_2 server_A False Rejected))) ''u1'' = Some ''t1''"
  using logoutUser_removes_first_with_id[OF logoutUser_eq[of state_A12 user_2 server_A False Rejected]]
  by (simp add: logoutUser_eq state_A12_def user_1_def user_2_def)

text \<open>
  Claim C2 as it is written fails where two records carry one identifier: signing
  out the user of server \<open>B\<close> removes the record of server \<open>A\<close> and keeps the
  record of the user that was signed out.
\<close>

theorem logoutUser_shared_id_counterexample:
  "reachable state_shared_id \<and>
   users state_shared_id = [user_1, user_1B] \<and> user_1 \<noteq> user_1B \<and>
   users (fst (snd (logoutUser state_shared_id user_1B server_B False Fulfilled))) = [user_1B]"
  using reachable_state_shared_id
  by (simp add: logoutUser_eq state_shared_id_def user_1_def user_1B_def)

subsection \<open>deleteServer on an unknown address\<close>

text \<open>
  Claim C7. When no record of the server registry has the given address,
  \<open>deleteServer\<close> fails with \<open>ServerUnknown\<close>, and the whole state (both registries,
  the token map, both selectors) is the state before the call; nothing is sent or
  notified.
\<close>

theorem deleteServer_unknown_address:
  assumes "\<forall>r \<in> set (servers s). srv_PublicAddress (objects s r) \<noteq> serverUrl"
  shows "deleteServer s serverUrl net = (Inl ServerUnknown, s, [])"
proof -
  have "find (\<lambda>r. srv_PublicAddress (objects s r) = serverUrl) (servers s) = None"
    using assms by (simp add: find_None_iff)
  then show ?thesis by (simp add: deleteServer_def)
qed

theorem deleteServer_unknown_address_witness:
  "deleteServer state_A12 ''http://b'' (\<lambda>_. Fulfilled) = (Inl ServerUnknown, state_A12, [])"
  using deleteServer_unknown_address[of state_A12 "''http://b''" "\<lambda>_. Fulfilled"]
  by (simp add: state_A12_def one_server_def server_A_def)

subsection \<open>loginUser\<close>

text \<open>
  Claim C10. With a current server, when the authenticate request succeeds and its
  answer has no user, a user identifier that is absent, \<open>null\<close> or empty, or such an
  access token, \<open>loginUser\<close> resolves with \<open>rememberMe\<close> set to its argument and
  with the user registry, the token map and both selectors unchanged.
\<close>

theorem loginUser_incomplete_answer:
  assumes "currentServer s = Some server"
    and "auth_User data = None \<or> (\<exists>u. auth_User data = Some u \<and> \<not> truthy_str (usr_Id u))
         \<or> \<not> truthy_str (auth_AccessToken data)"
    and "loginUser s username password remember (Answer data) = (res, s', ev)"
  shows "res = Inr () \<and> rememberMe s' = remember \<and> users s' = users s \<and>
         accessTokens s' = accessTokens s \<and> currentServerIndex s' = currentServerIndex s \<and>
         currentUserIndex s' = currentUserIndex s \<and> s' = s\<lparr> rememberMe := remember \<rparr>"
  using assms by (auto simp: loginUser_def Let_def split: option.splits)

theorem loginUser_incomplete_answer_witness:
  "loginUser state_A12 ''ann'' ''pw'' False
     (Answer \<lparr> auth_User = Some user_1, auth_AccessToken = Null \<rparr>) =
   (Inr (), state_A12\<lparr> rememberMe := False \<rparr>, [])"
proof -
  obtain res s' ev where run: "loginUser state_A12 ''ann'' ''pw'' False
     (Answer \<lparr> auth_User = Some user_1, auth_AccessToken = Null \<rparr>) = (res, s', ev)"
    by (metis prod_cases3)
  have "res = Inr () \<and> s' = state_A12\<lparr> rememberMe := False \<rparr>"
    using loginUser_incomplete_answer[OF currentServer_state_A12 _ run] by simp
  moreover have "ev = []" using run by (simp add: loginUser_def currentServer_state_A12 Let_def)
  ultimately show ?thesis using run by simp
qed

text \<open>
  Claim C3, as the source has it. With a current server, a failed authenticate
  request makes \<open>loginUser\<close> resolve with the state unchanged (so the user registry,
  the token map and \<open>currentUserIndex\<close> are). When what was thrown is an Axios
  error, exactly one notification is raised, with the message of its shape (no
  response, status 500 or 401, status 400, any other status); when it is anything
  else, the guard \<open>isAxiosError\<close> of the \<open>catch\<close> block lets it pass in silence.
\<close>

theorem loginUser_request_fails:
  assumes "currentServer s = Some server"
  shows "loginUser s username password remember (Failed f) =
           (Inr (), s,
            case f of AxiosError status msg \<Rightarrow> [Notify (loginErrorMessage status msg) ''error'']
                    | OtherError msg \<Rightarrow> [])"
  using assms by (cases f) (simp_all add: loginUser_def)

theorem loginUser_request_fails_witness:
  "loginUser state_A12 ''ann'' ''pw'' True (Failed (AxiosError (Some 401) ''Unauthorized'')) =
     (Inr (), state_A12, [Notify (T ''incorrectUsernameOrPassword'') ''error''])"
  using loginUser_request_fails[OF currentServer_state_A12, of "''ann''" "''pw''" True "AxiosError (Some 401) ''Unauthorized''"]
  by (simp add: loginErrorMessage_def)

text \<open>
  Claim C3 as it is written fails for a thrown value that is not an Axios error: the
  call resolves and no notification is raised.
\<close>

theorem loginUser_silent_counterexample:
  "reachable state_A12 \<and> currentServer state_A12 = Some server_A \<and>
   loginUser state_A12 ''ann'' ''pw'' True (Failed (OtherError ''Network Error'')) =
     (Inr (), state_A12, [])"
  using reachable_state_A12 by (simp add: loginUser_def currentServer_state_A12)

subsection \<open>The token map and the user registry\<close>

lemma key_of_Val: "key_of i = k \<Longrightarrow> i = Val k \<or> i = Undefined \<or> i = Null"
  by (cases i) auto

lemma tokens_covered_logoutUser:
  assumes "tokens_covered s" and "logoutUser s user server skipRequest remote = (res, s', ev)"
  shows "tokens_covered s'"
proof -
  have s': "s' = s\<lparr> users := del_first (\<lambda>u. usr_Id u = usr_Id user) (users s),
         accessTokens := (accessTokens s)(key_of (usr_Id user) := None) \<rparr>"
    using assms(2) by (simp add: logoutUser_eq)
  show ?thesis
    unfolding tokens_covered_def
  proof
    fix k assume "k \<in> dom (accessTokens s')"
    then have kne: "k \<noteq> key_of (usr_Id user)" and kd: "k \<in> dom (accessTokens s)"
      by (auto simp: s' split: if_splits)
    from assms(1) kd obtain u where u: "u \<in> set (users s)" "usr_Id u = Val k"
      by (auto simp: tokens_covered_def)
    have "usr_Id u \<noteq> usr_Id user"
    proof
      assume "usr_Id u = usr_Id user"
      then have "key_of (usr_Id user) = k" using u(2) by (metis key_of.simps(1))
      with kne show False by simp
    qed
    then have "u \<in> set (users s')" using u(1) by (simp add: s' del_first_keeps)
    with u(2) show "\<exists>u \<in> set (users s'). usr_Id u = Val k" by blast
  qed
qed

lemma tokens_covered_logoutUsers:
  "tokens_covered s \<Longrightarrow> logoutUsers s server net us = (s', ev) \<Longrightarrow> tokens_covered s'"
proof (induction us arbitrary: s s' ev)
  case Nil
  then show ?case by simp
next
  case (Cons u us)
  obtain r1 s1 e1 where l: "logoutUser s u (objects s server) False (net u) = (r1, s1, e1)"
    by (metis prod_cases3)
  obtain s2 e2 where ls: "logoutUsers s1 server net us = (s2, e2)" by fastforce
  from Cons.prems(2) l ls have "s' = s2" by simp
  moreover have "tokens_covered s1" using tokens_covered_logoutUser[OF Cons.prems(1) l] .
  ultimately show ?case using Cons.IH ls by blast
qed

lemma tokens_covered_frame:
  "users s' = users s \<Longrightarrow> accessTokens s' = accessTokens s \<Longrightarrow> tokens_covered s' = tokens_covered s"
  by (simp add: tokens_covered_def)

lemma tokens_covered_removeServer: "tokens_covered (removeServer s r) = tokens_covered s"
  by (simp add: tokens_covered_def removeServer_def)

lemma tokens_covered_selectServer: "tokens_covered (selectServer s a) = tokens_covered s"
  by (simp add: tokens_covered_def selectServer_def)

lemma tokens_covered_deleteServer:
  assumes "tokens_covered s" and "deleteServer s serverUrl net = (res, s', ev)"
  shows "tokens_covered s'"
proof (cases "find (\<lambda>r. srv_PublicAddress (objects s r) = serverUrl) (servers s)")
  case None
  with assms show ?thesis by (simp add: deleteServer_def)
next
  case (Some server)
  obtain s1 e1 where l: "logoutUsers s server net (getUsersFromServer s (objects s server)) = (s1, e1)"
    by fastforce
  with assms(2) Some have "s' = removeServer s1 server" by (simp add: deleteServer_def)
  then show ?thesis
    using tokens_covered_logoutUsers[OF assms(1) l] by (simp add: tokens_covered_removeServer)
qed

lemma tokens_covered_sign_out:
  assumes "tokens_covered s"
    and "users s' = del_first (\<lambda>v. usr_Id v = usr_Id (u::UserDto)) (users s)"
    and "accessTokens s' = (accessTokens s)(key_of (usr_Id u) := None)"
  shows "tokens_covered s'"
proof -
  have "tokens_covered (s\<lparr> users := del_first (\<lambda>v. usr_Id v = usr_Id u) (users s),
                           accessTokens := (accessTokens s)(key_of (usr_Id u) := None) \<rparr>)"
    using tokens_covered_logoutUser[OF assms(1) logoutUser_eq[of s u blank False Fulfilled]] .
  with assms(2,3) show ?thesis by (simp add: tokens_covered_def)
qed

text \<open>
  What \<open>deleteServer\<close> does before its first \<open>await\<close>, what \<open>connectServer\<close> does
  and what one job does to the users and the tokens: nothing, or what one
  \<open>logoutUser\<close> does, for a user of the registry or of the job.
\<close>

lemma deleteServer_begin_signs_out:
  assumes "deleteServer_begin s a net = (s', ev, p)"
  shows "(users s' = users s \<and> accessTokens s' = accessTokens s) \<or>
         (\<exists>u \<in> set (users s). users s' = del_first (\<lambda>v. usr_Id v = usr_Id u) (users s) \<and>
              accessTokens s' = (accessTokens s)(key_of (usr_Id u) := None))"
proof (cases "find (\<lambda>r. srv_PublicAddress (objects s r) = a) (servers s)")
  case None
  with assms show ?thesis by (simp add: deleteServer_begin_def)
next
  case (Some server)
  show ?thesis
  proof (cases "getUsersFromServer s (objects s server)")
    case Nil
    with assms Some show ?thesis by (auto simp: deleteServer_begin_def removeServer_def)
  next
    case (Cons u us)
    then have "u \<in> set (getUsersFromServer s (objects s server))" by simp
    then have "u \<in> set (users s)" by (simp add: getUsersFromServer_def)
    moreover from assms Some Cons
    have "users s' = del_first (\<lambda>v. usr_Id v = usr_Id u) (users s) \<and>
          accessTokens s' = (accessTokens s)(key_of (usr_Id u) := None)"
      by (auto simp: deleteServer_begin_def logoutUser_eq)
    ultimately show ?thesis by blast
  qed
qed


lemma connectServer_call_signs_out:
  assumes "connectServer_call s url isDefault answer net = ((res, s', ev), pending)"
  shows "(users s' = users s \<and> accessTokens s' = accessTokens s) \<or>
         (\<exists>u \<in> set (users s). users s' = del_first (\<lambda>v. usr_Id v = usr_Id u) (users s) \<and>
              accessTokens s' = (accessTokens s)(key_of (usr_Id u) := None))"
proof (cases answer)
  case (Failed f)
  with assms show ?thesis by (simp add: connectServer_call_def)
next
  case (Answer data)
  show ?thesis
  proof (cases "isServerVersionSupported (srv_Version data) \<and> truthy_bool (srv_StartupWizardCompleted data)")
    case False
    with assms Answer show ?thesis
      by (auto simp: connectServer_call_def received_def Let_def split: if_splits)
  next
    case True
    show ?thesis
    proof (cases "getServerById s (srv_Id data)")
      case None
      with assms Answer True show ?thesis
        by (auto simp: connectServer_call_def received_def Let_def selectServer_def)
    next
      case (Some oldServer)
      obtain s1 ev1 p where b: "deleteServer_begin s (srv_PublicAddress (objects s oldServer)) net = (s1, ev1, p)"
        by (metis prod_cases3)
      from assms Answer True Some b
      have "users s' = users s1 \<and> accessTokens s' = accessTokens s1"
        by (auto simp: connectServer_call_def received_def Let_def selectServer_def)
      with deleteServer_begin_signs_out[OF b] show ?thesis by simp
    qed
  qed
qed


lemma deleteServer_job_signs_out:
  assumes "deleteServer_job s net p = (s', ev, pending)"
  shows "(users s' = users s \<and> accessTokens s' = accessTokens s) \<or>
         (\<exists>u \<in> set (snd p). users s' = del_first (\<lambda>v. usr_Id v = usr_Id u) (users s) \<and>
              accessTokens s' = (accessTokens s)(key_of (usr_Id u) := None))"
proof -
  obtain server us where p: "p = (server, us)" by fastforce
  show ?thesis
  proof (cases us)
    case Nil
    with assms p show ?thesis by (auto simp: deleteServer_job_def removeServer_def)
  next
    case (Cons u us')
    with p have "u \<in> set (snd p)" by simp
    moreover from Cons assms p
    have "users s' = del_first (\<lambda>v. usr_Id v = usr_Id u) (users s) \<and>
          accessTokens s' = (accessTokens s)(key_of (usr_Id u) := None)"
      by (auto simp: deleteServer_job_def logoutUser_eq)
    ultimately show ?thesis by blast
  qed
qed


lemma tokens_covered_signs_out:
  assumes "tokens_covered s"
    and "(users s' = users s \<and> accessTokens s' = accessTokens s) \<or>
         (\<exists>u \<in> (U::UserDto set). users s' = del_first (\<lambda>v. usr_Id v = usr_Id u) (users s) \<and>
              accessTokens s' = (accessTokens s)(key_of (usr_Id u) := None))"
  shows "tokens_covered s'"
proof -
  from assms(2) consider
    (same) "users s' = users s" "accessTokens s' = accessTokens s"
    | (out) u :: UserDto where "users s' = del_first (\<lambda>v. usr_Id v = usr_Id u) (users s)"
        "accessTokens s' = (accessTokens s)(key_of (usr_Id u) := None)"
    by blast
  then show ?thesis
  proof cases
    case same
    with assms(1) show ?thesis by (simp add: tokens_covered_def)
  next
    case out
    then show ?thesis using tokens_covered_sign_out[OF assms(1)] by blast
  qed
qed

lemma tokens_covered_loginUser:
  assumes "tokens_covered s" and "loginUser s username password remember answer = (res, s', ev)"
  shows "tokens_covered s'"
proof (cases "currentServer s")
  case None
  with assms show ?thesis by (simp add: loginUser_def)
next
  case (Some server)
  show ?thesis
  proof (cases answer)
    case (Failed f)
    with assms Some show ?thesis by (cases f) (auto simp: loginUser_def)
  next
    case (Answer data)
    show ?thesis
    proof (cases "\<exists>user. auth_User data = Some user \<and> truthy_str (usr_Id user) \<and> truthy_str (auth_AccessToken data)")
      case False
      with assms Some Answer have "users s' = users s \<and> accessTokens s' = accessTokens s"
        by (auto simp: loginUser_def Let_def split: option.splits if_splits)
      with assms(1) show ?thesis by (simp add: tokens_covered_def)
    next
      case True
      then obtain user where u: "auth_User data = Some user" "truthy_str (usr_Id user)" "truthy_str (auth_AccessToken data)"
        by blast
      from u(2) obtain k where k: "usr_Id user = Val k" by (cases "usr_Id user") auto
      from assms(2) Some Answer u k
      have "users s' = users s @ [user]" "dom (accessTokens s') = insert k (dom (accessTokens s))"
        by (auto simp: loginUser_def Let_def)
      with assms(1) k show ?thesis by (auto simp: tokens_covered_def)
    qed
  qed
qed

lemma tokens_covered_logoutCurrentUser:
  assumes "tokens_covered s" and "logoutCurrentUser s skipRequest remote = (res, s', ev)"
  shows "tokens_covered s'"
proof (cases "\<exists>user server. currentUser s = Some user \<and> currentServer s = Some server")
  case False
  with assms show ?thesis by (auto simp: logoutCurrentUser_def split: option.splits)
next
  case True
  then obtain user server where c: "currentUser s = Some user" "currentServer s = Some server" by blast
  obtain r1 s1 e1 where l: "logoutUser s user server skipRequest remote = (r1, s1, e1)"
    by (metis prod_cases3)
  with assms(2) c have "s' = s1\<lparr> currentUserIndex := - 1 \<rparr>" by (simp add: logoutCurrentUser_def)
  then show ?thesis using tokens_covered_logoutUser[OF assms(1) l] by (simp add: tokens_covered_def)
qed

lemma tokens_covered_step:
  assumes "step w w'" and "tokens_covered (fst w)"
  shows "tokens_covered (fst w')"
  using assms
proof (induction rule: step.induct)
  case (connect s url isDefault answer net res s' ev pending ps)
  then show ?case using tokens_covered_signs_out[OF _ connectServer_call_signs_out] by simp
next
  case (login s username password remember answer res s' ev ps)
  then show ?case using tokens_covered_loginUser by simp
next
  case (logout s user server skipRequest remote res s' ev ps)
  then show ?case using tokens_covered_logoutUser by simp
next
  case (logoutCurrent s skipRequest remote res s' ev ps)
  then show ?case using tokens_covered_logoutCurrentUser by simp
next
  case (delete s serverUrl net res s' ev ps)
  then show ?case using tokens_covered_deleteServer by simp
next
  case (delete_begin s serverUrl net s' ev pending ps)
  then show ?case using tokens_covered_signs_out[OF _ deleteServer_begin_signs_out] by simp
next
  case (job s net p s' ev pending ps1 ps2)
  then show ?case using tokens_covered_signs_out[OF _ deleteServer_job_signs_out] by simp
qed

lemma reaches_tokens_covered: "reaches w \<Longrightarrow> tokens_covered (fst w)"
proof (induction rule: reaches.induct)
  case (start h)
  show ?case by (simp add: tokens_covered_def initial_def)
next
  case (after w w')
  then show ?case using tokens_covered_step by blast
qed

lemma reachable_tokens_covered: "reachable s \<Longrightarrow> tokens_covered s"
  using reaches_tokens_covered by (fastforce simp: reachable_def)

subsection \<open>Token entries and user records, step by step\<close>





































subsection \<open>The selectors after a removal\<close>

text \<open>
  Claim C9 on two runs from the initial state. Server \<open>A\<close> is connected and two
  users sign in, the second being current; \<open>logoutUser\<close> of the first leaves one
  user in the registry and \<open>currentUserIndex\<close> at 1, past its end. Servers \<open>A\<close>
  and \<open>B\<close> are connected, \<open>B\<close> being current; \<open>deleteServer\<close> of \<open>A\<close> leaves one
  server and \<open>currentServerIndex\<close> at 1. Neither method writes a selector.
\<close>

theorem selectors_dangle_after_removal:
  "reachable state_A12 \<and> currentUser state_A12 = Some user_2 \<and>
   reachable (fst (snd (logoutUser state_A12 user_1 server_A False Fulfilled))) \<and>
   users (fst (snd (logoutUser state_A12 user_1 server_A False Fulfilled))) = [user_2] \<and>
   currentUserIndex (fst (snd (logoutUser state_A12 user_1 server_A False Fulfilled))) = 1 \<and>
   \<not> selector_ok (currentUserIndex (fst (snd (logoutUser state_A12 user_1 server_A False Fulfilled))))
                  (users (fst (snd (logoutUser state_A12 user_1 server_A False Fulfilled)))) \<and>
   reachable state_AB3 \<and> currentServer state_AB3 = Some server_B \<and>
   reachable (fst (snd (deleteServer state_AB3 ''http://a'' (\<lambda>_. Fulfilled)))) \<and>
   servers (fst (snd (deleteServer state_AB3 ''http://a'' (\<lambda>_. Fulfilled)))) = [2] \<and>
   currentServerIndex (fst (snd (deleteServer state_AB3 ''http://a'' (\<lambda>_. Fulfilled)))) = 1 \<and>
   \<not> selector_ok (currentServerIndex (fst (snd (deleteServer state_AB3 ''http://a'' (\<lambda>_. Fulfilled)))))
                  (servers (fst (snd (deleteServer state_AB3 ''http://a'' (\<lambda>_. Fulfilled)))))"
proof -
  have r1: "reachable (fst (snd (logoutUser state_A12 user_1 server_A False Fulfilled)))"
    using reachable_logout[OF reachable_state_A12, of user_1 server_A False Fulfilled]
    by (metis prod.collapse)
  have r2: "reachable (fst (snd (deleteServer state_AB3 ''http://a'' (\<lambda>_. Fulfilled))))"
    using reachable_delete[OF reachable_state_AB3 delete_A] by (simp add: delete_A)
  have u: "currentUser state_A12 = Some user_2 \<and>
   users (fst (snd (logoutUser state_A12 user_1 server_A False Fulfilled))) = [user_2] \<and>
   currentUserIndex (fst (snd (logoutUser state_A12 user_1 server_A False Fulfilled))) = 1 \<and>
   \<not> selector_ok (currentUserIndex (fst (snd (logoutUser state_A12 user_1 server_A False Fulfilled))))
                  (users (fst (snd (logoutUser state_A12 user_1 server_A False Fulfilled))))"
    by (simp add: logoutUser_eq state_A12_def selector_ok_def currentUser_def js_index_def
        user_1_def user_2_def)
  have v: "currentServer state_AB3 = Some server_B \<and>
   servers (fst (snd (deleteServer state_AB3 ''http://a'' (\<lambda>_. Fulfilled)))) = [2] \<and>
   currentServerIndex (fst (snd (deleteServer state_AB3 ''http://a'' (\<lambda>_. Fulfilled)))) = 1 \<and>
   \<not> selector_ok (currentServerIndex (fst (snd (deleteServer state_AB3 ''http://a'' (\<lambda>_. Fulfilled)))))
                  (servers (fst (snd (deleteServer state_AB3 ''http://a'' (\<lambda>_. Fulfilled)))))"
    by (simp add: delete_A selector_ok_def) (simp add: state_AB3_def currentServer_def js_index_def two_servers_def)
  from r1 r2 u v reachable_state_A12 reachable_state_AB3 show ?thesis by blast
qed

subsection \<open>The hook that signs out on status 401\<close>

lemma logoutCurrentUser_eq:
  "logoutCurrentUser s skipRequest remote =
     (case (currentUser s, currentServer s) of
        (Some user, Some server) \<Rightarrow>
          (Inr (),
           s\<lparr> users := del_first (\<lambda>u. usr_Id u = usr_Id user) (users s),
              accessTokens := (accessTokens s)(key_of (usr_Id user) := None),
              currentUserIndex := - 1 \<rparr>,
           if skipRequest then []
           else [RemoteLogout (srv_PublicAddress server) (getUserAccessToken s (Some user))])
      | _ \<Rightarrow> (Inr (), s, []))"
  by (simp add: logoutCurrentUser_def logoutUser_eq split: option.splits)

lemma not_includes_items: "\<not> str_includes ''/Users/u2/Items'' ''/Sessions/Logout''"
  by code_simp

text \<open>
  Claim C6, as the source has it. The hook always rejects with the error it was
  given. When the status is 401, the URL of the request does not contain
  \<open>/Sessions/Logout\<close>, and there are a current user and a current server, the
  current user is signed out locally (the first record with its identifier and its
  token are removed, \<open>currentUserIndex\<close> becomes \<open>-1\<close>, no remote request is made)
  and one notification is raised. When the URL contains \<open>/Sessions/Logout\<close>,
  nothing is changed and nothing is raised.
\<close>

theorem logoutInterceptor_forced_signout:
  assumes "logoutInterceptor s err remote = (res, s', ev)"
  shows "res = Inl err \<and>
         (err_status err = Some 401 \<and>
          (\<forall>url. err_url err = Some url \<longrightarrow> \<not> str_includes url ''/Sessions/Logout'') \<and>
          currentUser s = Some user \<and> currentServer s = Some server \<longrightarrow>
            s' = s\<lparr> users := del_first (\<lambda>u. usr_Id u = usr_Id user) (users s),
                    accessTokens := (accessTokens s)(key_of (usr_Id user) := None),
                    currentUserIndex := - 1 \<rparr> \<and>
            ev = [Notify (T ''kickedOut'') ''error'']) \<and>
         ((\<exists>url. err_url err = Some url \<and> str_includes url ''/Sessions/Logout'') \<longrightarrow>
            s' = s \<and> ev = [])"
  using assms
  by (auto simp: logoutInterceptor_def logoutCurrentUser_eq currentUser_ref_truthy_def
      split: if_splits option.splits)

theorem logoutInterceptor_forced_signout_witness:
  "logoutInterceptor state_A12 \<lparr> err_status = Some 401, err_url = Some ''/Users/u2/Items'' \<rparr> Fulfilled =
     (Inl \<lparr> err_status = Some 401, err_url = Some ''/Users/u2/Items'' \<rparr>,
      state_A12\<lparr> users := [user_1], accessTokens := [''u1'' \<mapsto> ''t1''], currentUserIndex := - 1 \<rparr>,
      [Notify (T ''kickedOut'') ''error''])"
proof -
  let ?e = "\<lparr> err_status = Some 401, err_url = Some ''/Users/u2/Items'' \<rparr>"
  obtain res s' ev where run: "logoutInterceptor state_A12 ?e Fulfilled = (res, s', ev)"
    by (metis prod_cases3)
  have cu: "currentUser state_A12 = Some user_2"
    by (simp add: currentUser_def state_A12_def js_index_def)
  have "res = Inl ?e \<and> s' = state_A12\<lparr> users := del_first (\<lambda>u. usr_Id u = usr_Id user_2) (users state_A12),
                    accessTokens := (accessTokens state_A12)(key_of (usr_Id user_2) := None),
                    currentUserIndex := - 1 \<rparr> \<and> ev = [Notify (T ''kickedOut'') ''error'']"
    using logoutInterceptor_forced_signout[OF run, of user_2 server_A] cu currentServer_state_A12 not_includes_items
    by simp
  moreover have "del_first (\<lambda>u. usr_Id u = usr_Id user_2) (users state_A12) = [user_1]"
    by (simp add: state_A12_def user_1_def user_2_def)
  moreover have "(accessTokens state_A12)(key_of (usr_Id user_2) := None) = [''u1'' \<mapsto> ''t1'']"
    by (auto simp: state_A12_def user_2_def fun_eq_iff)
  ultimately show ?thesis using run by simp
qed

text \<open>
  Claim C6 as it is written fails in a state with a current user and no current
  server, here the state that \<open>deleteServer\<close> of server \<open>A\<close> leaves: on status 401
  \<open>logoutCurrentUser\<close> does nothing, the user stays signed in, and the notification
  is raised all the same.
\<close>

theorem logoutInterceptor_no_server_counterexample:
  "reachable (state_AB3\<lparr> servers := [2] \<rparr>) \<and>
   currentUser (state_AB3\<lparr> servers := [2] \<rparr>) = Some user_3 \<and>
   logoutInterceptor (state_AB3\<lparr> servers := [2] \<rparr>) \<lparr> err_status = Some 401, err_url = Some ''/Users/u2/Items'' \<rparr> Fulfilled =
     (Inl \<lparr> err_status = Some 401, err_url = Some ''/Users/u2/Items'' \<rparr>,
      state_AB3\<lparr> servers := [2] \<rparr>,
      [Notify (T ''kickedOut'') ''error''])"
proof -
  have r: "reachable (state_AB3\<lparr> servers := [2] \<rparr>)"
    using reachable_delete[OF reachable_state_AB3 delete_A] .
  have cs: "currentServer (state_AB3\<lparr> servers := [2] \<rparr>) = None"
    by (simp add: currentServer_def state_AB3_def js_index_def)
  have cu: "currentUser (state_AB3\<lparr> servers := [2] \<rparr>) = Some user_3"
    by (simp add: currentUser_def state_AB3_def js_index_def)
  show ?thesis using r cs cu
    by (simp add: logoutInterceptor_def logoutCurrentUser_eq not_includes_items currentUser_ref_truthy_def)
qed

subsection \<open>deleteServer on a registered address\<close>

lemma logoutUsers_frame:
  "logoutUsers s server net us = (s', ev) \<Longrightarrow>
     servers s' = servers s \<and> objects s' = objects s \<and>
     currentServerIndex s' = currentServerIndex s \<and>
     currentUserIndex s' = currentUserIndex s \<and> rememberMe s' = rememberMe s"
proof (induction us arbitrary: s s' ev)
  case Nil
  then show ?case by simp
next
  case (Cons u us)
  obtain s2 e2 where ls: "logoutUsers (fst (snd (logoutUser s u (objects s server) False (net u)))) server net us = (s2, e2)"
    by fastforce
  with Cons.prems have "s' = s2" by (simp add: logoutUser_eq)
  with Cons.IH[OF ls] show ?case by (simp add: logoutUser_eq)
qed

lemma logoutUsers_users:
  "logoutUsers s server net us = (s', ev) \<Longrightarrow>
     users s' = fold (\<lambda>u. del_first (\<lambda>v. usr_Id v = usr_Id u)) us (users s)"
proof (induction us arbitrary: s s' ev)
  case Nil
  then show ?case by simp
next
  case (Cons u us)
  obtain s2 e2 where ls: "logoutUsers (fst (snd (logoutUser s u (objects s server) False (net u)))) server net us = (s2, e2)"
    by fastforce
  with Cons.prems have "s' = s2" by (simp add: logoutUser_eq)
  with Cons.IH[OF ls] show ?case by (simp add: logoutUser_eq)
qed

lemma logoutUsers_tokens:
  "logoutUsers s server net us = (s', ev) \<Longrightarrow>
     accessTokens s' = (\<lambda>k. if k \<in> key_of ` usr_Id ` set us then None else accessTokens s k)"
proof (induction us arbitrary: s s' ev)
  case Nil
  then show ?case by simp
next
  case (Cons u us)
  obtain s2 e2 where ls: "logoutUsers (fst (snd (logoutUser s u (objects s server) False (net u)))) server net us = (s2, e2)"
    by fastforce
  with Cons.prems have "s' = s2" by (simp add: logoutUser_eq)
  with Cons.IH[OF ls] show ?case by (auto simp: logoutUser_eq fun_eq_iff)
qed

lemma logoutUsers_effects:
  "logoutUsers s server net us = (s', ev) \<Longrightarrow>
     \<exists>toks. length toks = length us \<and> ev = map (RemoteLogout (srv_PublicAddress (objects s server))) toks"
proof (induction us arbitrary: s s' ev)
  case Nil
  then show ?case by simp
next
  case (Cons u us)
  let ?s1 = "fst (snd (logoutUser s u (objects s server) False (net u)))"
  obtain s2 e2 where ls: "logoutUsers ?s1 server net us = (s2, e2)"
    by fastforce
  have o: "objects ?s1 = objects s" by (simp add: logoutUser_eq)
  from Cons.IH[OF ls] o obtain toks where
    t: "length toks = length us" "e2 = map (RemoteLogout (srv_PublicAddress (objects s server))) toks"
    by auto
  from Cons.prems ls
  have "ev = RemoteLogout (srv_PublicAddress (objects s server)) (getUserAccessToken s (Some u)) # e2"
    by (simp add: logoutUser_eq)
  with t have "length (getUserAccessToken s (Some u) # toks) = length (u # us) \<and>
     ev = map (RemoteLogout (srv_PublicAddress (objects s server))) (getUserAccessToken s (Some u) # toks)"
    by simp
  then show ?case by blast
qed

lemma fold_del_first_keep:
  "\<forall>l \<in> set L. usr_Id x \<noteq> usr_Id l \<Longrightarrow>
     fold (\<lambda>u. del_first (\<lambda>v. usr_Id v = usr_Id u)) L (x # ys) =
     x # fold (\<lambda>u. del_first (\<lambda>v. usr_Id v = usr_Id u)) L ys"
  by (induction L arbitrary: ys) auto

lemma fold_del_first_filter:
  assumes "\<And>x v. x \<in> set xs \<Longrightarrow> v \<in> set xs \<Longrightarrow> P v \<Longrightarrow> usr_Id x = usr_Id v \<Longrightarrow> P x"
  shows "fold (\<lambda>u. del_first (\<lambda>v. usr_Id v = usr_Id u)) (filter P xs) xs = filter (\<lambda>x. \<not> P x) xs"
  using assms
proof (induction xs)
  case Nil
  then show ?case by simp
next
  case (Cons x xs)
  have ih: "fold (\<lambda>u. del_first (\<lambda>v. usr_Id v = usr_Id u)) (filter P xs) xs = filter (\<lambda>x. \<not> P x) xs"
  proof (rule Cons.IH)
    fix a v assume "a \<in> set xs" "v \<in> set xs" "P v" "usr_Id a = usr_Id v"
    then show "P a" using Cons.prems[of a v] by simp
  qed
  show ?case
  proof (cases "P x")
    case True
    with ih show ?thesis by simp
  next
    case False
    have "\<forall>l \<in> set (filter P xs). usr_Id x \<noteq> usr_Id l"
    proof
      fix l assume "l \<in> set (filter P xs)"
      then have l: "l \<in> set (x # xs)" "P l" by simp_all
      show "usr_Id x \<noteq> usr_Id l"
      proof
        assume "usr_Id x = usr_Id l"
        then have "P x" using Cons.prems[of x l] l by simp
        with False show False by simp
      qed
    qed
    from fold_del_first_keep[OF this] False ih show ?thesis by simp
  qed
qed

text \<open>
  Claim C1, as the source has it. Let the server registry hold a record with the given
  address, \<open>server\<close> being the first one, and let every user record that shares its
  identifier with a user of that server be a user of that server too. Then
  \<open>deleteServer\<close> resolves; it has called \<open>logoutUser\<close> once for each user of the
  server, in the order of the registry (one remote sign-out request each, on the
  server's address); the first occurrence of \<open>server\<close> is gone from the server
  registry (so \<open>server\<close> is, when the registry held it once); the user registry
  is what it was without the users of that server; the token map has no entry under
  the identifier of any of them, and its other entries are unchanged.
\<close>

theorem deleteServer_removes_server_and_users:
  assumes found: "find (\<lambda>r. srv_PublicAddress (objects s r) = serverUrl) (servers s) = Some server"
    and own: "\<forall>u \<in> set (users s). \<forall>v \<in> set (users s).
                usr_ServerId v = srv_Id (objects s server) \<and> usr_Id u = usr_Id v \<longrightarrow>
                usr_ServerId u = srv_Id (objects s server)"
    and run: "deleteServer s serverUrl net = (res, s', ev)"
  shows "res = Inr () \<and>
         servers s' = remove1 server (servers s) \<and>
         (distinct (servers s) \<longrightarrow> server \<notin> set (servers s')) \<and>
         users s' = filter (\<lambda>u. usr_ServerId u \<noteq> srv_Id (objects s server)) (users s) \<and>
         (\<forall>u \<in> set (getUsersFromServer s (objects s server)). accessTokens s' (key_of (usr_Id u)) = None) \<and>
         (\<forall>k. k \<notin> key_of ` usr_Id ` set (getUsersFromServer s (objects s server)) \<longrightarrow>
                accessTokens s' k = accessTokens s k) \<and>
         (\<exists>toks. length toks = length (getUsersFromServer s (objects s server)) \<and>
                  ev = map (RemoteLogout (srv_PublicAddress (objects s server))) toks)"
proof -
  let ?us = "getUsersFromServer s (objects s server)"
  obtain s1 e1 where l: "logoutUsers s server net ?us = (s1, e1)" by fastforce
  from run found l have res: "res = Inr ()" and s': "s' = removeServer s1 server" and ev: "ev = e1"
    by (simp_all add: deleteServer_def)
  have mem: "server \<in> set (servers s)" using found by (auto simp: find_Some_iff)
  have fr: "servers s1 = servers s" using logoutUsers_frame[OF l] by simp
  have srv: "servers s' = remove1 server (servers s)"
    using mem by (simp add: s' removeServer_def fr splice_indexOf)
  have "fold (\<lambda>u. del_first (\<lambda>v. usr_Id v = usr_Id u))
          (filter (\<lambda>u. usr_ServerId u = srv_Id (objects s server)) (users s)) (users s) =
        filter (\<lambda>u. usr_ServerId u \<noteq> srv_Id (objects s server)) (users s)"
  proof (rule fold_del_first_filter)
    fix x v assume "x \<in> set (users s)" "v \<in> set (users s)"
      "usr_ServerId v = srv_Id (objects s server)" "usr_Id x = usr_Id v"
    with own show "usr_ServerId x = srv_Id (objects s server)" by blast
  qed
  then have us: "users s' = filter (\<lambda>u. usr_ServerId u \<noteq> srv_Id (objects s server)) (users s)"
    using logoutUsers_users[OF l] by (simp add: s' removeServer_def getUsersFromServer_def)
  have tk: "accessTokens s' = (\<lambda>k. if k \<in> key_of ` usr_Id ` set ?us then None else accessTokens s k)"
    using logoutUsers_tokens[OF l] by (simp add: s' removeServer_def)
  from res srv us tk logoutUsers_effects[OF l] ev show ?thesis by auto
qed

theorem deleteServer_removes_server_and_users_witness:
  "fst (deleteServer state_A12 ''http://a'' (\<lambda>_. Rejected)) = Inr () \<and>
   servers (fst (snd (deleteServer state_A12 ''http://a'' (\<lambda>_. Rejected)))) = [] \<and>
   users (fst (snd (deleteServer state_A12 ''http://a'' (\<lambda>_. Rejected)))) = [] \<and>
   accessTokens (fst (snd (deleteServer state_A12 ''http://a'' (\<lambda>_. Rejected)))) ''u1'' = None \<and>
   accessTokens (fst (snd (deleteServer state_A12 ''http://a'' (\<lambda>_. Rejected)))) ''u2'' = None"
proof -
  let ?r = "deleteServer state_A12 ''http://a'' (\<lambda>_. Rejected)"
  have found: "find (\<lambda>r. srv_PublicAddress (objects state_A12 r) = ''http://a'') (servers state_A12) = Some (Suc 0)"
    by (simp add: state_A12_def one_server_def server_A_def)
  have sid: "srv_Id (objects state_A12 (Suc 0)) = Val ''A''"
    by (simp add: state_A12_def one_server_def server_A_def)
  have su: "servers state_A12 = [Suc 0]" "users state_A12 = [user_1, user_2]"
    by (simp_all add: state_A12_def)
  have ids: "usr_ServerId user_1 = Val ''A''" "usr_ServerId user_2 = Val ''A''"
    "key_of (usr_Id user_1) = ''u1''" "key_of (usr_Id user_2) = ''u2''"
    by (simp_all add: user_1_def user_2_def)
  have own: "\<forall>u \<in> set (users state_A12). \<forall>v \<in> set (users state_A12).
                usr_ServerId v = srv_Id (objects state_A12 (Suc 0)) \<and> usr_Id u = usr_Id v \<longrightarrow>
                usr_ServerId u = srv_Id (objects state_A12 (Suc 0))"
    by (simp add: sid su ids)
  have run: "?r = (fst ?r, fst (snd ?r), snd (snd ?r))" by simp
  have us: "getUsersFromServer state_A12 (objects state_A12 (Suc 0)) = [user_1, user_2]"
    by (simp add: getUsersFromServer_def sid su ids)
  note t = deleteServer_removes_server_and_users[OF found own run]
  from t have a: "fst ?r = Inr ()" by blast
  from t have "servers (fst (snd ?r)) = remove1 (Suc 0) (servers state_A12)" by blast
  then have b: "servers (fst (snd ?r)) = []" by (simp add: su)
  from t have "users (fst (snd ?r)) = filter (\<lambda>u. usr_ServerId u \<noteq> srv_Id (objects state_A12 (Suc 0))) (users state_A12)"
    by blast
  then have c: "users (fst (snd ?r)) = []" by (simp add: sid su ids)
  from t have "\<forall>u \<in> set (getUsersFromServer state_A12 (objects state_A12 (Suc 0))).
       accessTokens (fst (snd ?r)) (key_of (usr_Id u)) = None" by blast
  then have d: "accessTokens (fst (snd ?r)) ''u1'' = None" "accessTokens (fst (snd ?r)) ''u2'' = None"
    by (simp_all add: us ids)
  from a b c d show ?thesis by simp
qed

text \<open>
  Claim C1 as it is written fails where a user of another server carries the
  identifier of a user of the deleted server and stands before it: deleting server
  \<open>B\<close> removes the record of server \<open>A\<close>, and the user of \<open>B\<close> stays in the
  registry.
\<close>

theorem deleteServer_shared_id_counterexample:
  "reachable state_shared_id \<and>
   fst (deleteServer state_shared_id ''http://b'' (\<lambda>_. Fulfilled)) = Inr () \<and>
   servers (fst (snd (deleteServer state_shared_id ''http://b'' (\<lambda>_. Fulfilled)))) = [1] \<and>
   users (fst (snd (deleteServer state_shared_id ''http://b'' (\<lambda>_. Fulfilled)))) = [user_1B] \<and>
   usr_ServerId user_1B = srv_Id server_B \<and>
   srv_PublicAddress server_B = ''http://b''"
  using reachable_state_shared_id
  by (simp add: deleteServer_def state_shared_id_def two_servers_def one_server_def server_A_def
      server_B_def getUsersFromServer_def user_1_def user_1B_def logoutUser_eq removeServer_def
      indexOf_def splice1_def)

subsection \<open>connectServer: the version gate\<close>

text \<open>
  Claim C4. When the public-system-info request succeeds, \<open>connectServer\<close>
  resolves exactly when the version is supported, that is when \<open>parseInt\<close> of the
  first segment of the version is above 10, or is 10 and \<open>parseInt\<close> of the second
  segment is at least 7. Otherwise it notifies \<open>login.serverVersionTooLow\<close>, fails
  with \<open>VersionUnsupported\<close> and leaves the state, so the server registry, as it
  was; a changed server registry implies a supported version. Version \<open>10.6.9\<close> is
  rejected, the length of the registry unchanged.
\<close>

theorem connectServer_version_gate:
  assumes "connectServer s url isDefault (Answer data) net = (res, s', ev)"
  shows "(isServerVersionSupported (srv_Version data) \<longleftrightarrow>
            (\<exists>major. semverMajor (srv_Version data) = Some major \<and>
               (major > 10 \<or>
                (major = 10 \<and> (\<exists>minor. semverMinor (srv_Version data) = Some minor \<and> minor \<ge> 7))))) \<and>
         (res = Inr () \<longleftrightarrow> isServerVersionSupported (srv_Version data)) \<and>
         (servers s' \<noteq> servers s \<longrightarrow> isServerVersionSupported (srv_Version data)) \<and>
         (\<not> isServerVersionSupported (srv_Version data) \<longrightarrow>
            res = Inl VersionUnsupported \<and> s' = s \<and>
            ev = [Notify (T ''login.serverVersionTooLow'') ''error'']) \<and>
         (srv_Version data = Val ''10.6.9'' \<longrightarrow>
            res = Inl VersionUnsupported \<and> length (servers s') = length (servers s))"
proof -
  have gate: "isServerVersionSupported (srv_Version data) \<longleftrightarrow>
            (\<exists>major. semverMajor (srv_Version data) = Some major \<and>
               (major > 10 \<or>
                (major = 10 \<and> (\<exists>minor. semverMinor (srv_Version data) = Some minor \<and> minor \<ge> 7))))"
    by (auto simp: isServerVersionSupported_def split: option.splits)
  have low: "\<not> isServerVersionSupported (Val ''10.6.9'')" by code_simp
  have unsup: "\<not> isServerVersionSupported (srv_Version data) \<Longrightarrow>
            res = Inl VersionUnsupported \<and> s' = s \<and>
            ev = [Notify (T ''login.serverVersionTooLow'') ''error'']"
    using assms by (simp add: connectServer_def connectServer_call_def received_def Let_def)
  have sup: "isServerVersionSupported (srv_Version data) \<Longrightarrow> res = Inr ()"
    using assms
    by (auto simp: connectServer_def connectServer_call_def received_def Let_def split: if_splits option.splits prod.splits)
  from gate low unsup sup show ?thesis by (cases "isServerVersionSupported (srv_Version data)") auto
qed

lemma version_gate_examples:
  "isServerVersionSupported (Val ''10.7.0'')"
  "isServerVersionSupported (Val ''11.0.0'')"
  "\<not> isServerVersionSupported (Val ''9.12.3'')"
  "\<not> isServerVersionSupported (Val ''10'')"
  "\<not> isServerVersionSupported Undefined"
  "semverMajor (Val ''10.6.9'') = Some 10"
  "semverMinor (Val ''10.6.9'') = Some 6"
  by code_simp+

theorem connectServer_version_gate_witness:
  "connectServer state_A12 ''http://a'' False (Answer info_old) (\<lambda>_. Fulfilled) =
     (Inl VersionUnsupported, state_A12, [Notify (T ''login.serverVersionTooLow'') ''error''])"
proof -
  let ?r = "connectServer state_A12 ''http://a'' False (Answer info_old) (\<lambda>_. Fulfilled)"
  have run: "?r = (fst ?r, fst (snd ?r), snd (snd ?r))" by simp
  have v: "srv_Version info_old = Val ''10.6.9''" by (simp add: info_old_def)
  have low: "\<not> isServerVersionSupported (srv_Version info_old)" unfolding v by code_simp
  from connectServer_version_gate[OF run] low
  have "fst ?r = Inl VersionUnsupported \<and> fst (snd ?r) = state_A12 \<and>
        snd (snd ?r) = [Notify (T ''login.serverVersionTooLow'') ''error'']" by blast
  then show ?thesis by (metis prod.collapse)
qed

subsection \<open>connectServer: a server that is already registered\<close>

lemma find_indexOf:
  "(case find P xs of None \<Rightarrow> - 1 | Some r \<Rightarrow> indexOf xs r) =
   (case findIndex P xs of None \<Rightarrow> - 1 | Some i \<Rightarrow> int i)"
proof (induction xs)
  case Nil
  then show ?case by simp
next
  case (Cons x xs)
  show ?case
  proof (cases "P x")
    case True
    then show ?thesis by (simp add: indexOf_def)
  next
    case False
    show ?thesis
    proof (cases "find P xs")
      case None
      then have "findIndex P xs = None" by (simp add: find_None_iff findIndex_None_iff)
      with None False show ?thesis by simp
    next
      case (Some r)
      then have "P r" "r \<in> set xs" by (auto simp: find_Some_iff)
      with False have ne: "x \<noteq> r" by auto
      from \<open>r \<in> set xs\<close> obtain j where j: "findIndex (\<lambda>y. y = r) xs = Some j"
        using findIndex_None_iff[of "\<lambda>y. y = r" xs] by (cases "findIndex (\<lambda>y. y = r) xs") auto
      from \<open>P r\<close> \<open>r \<in> set xs\<close> obtain i where i: "findIndex P xs = Some i"
        using findIndex_None_iff[of P xs] by (cases "findIndex P xs") auto
      from Cons.IH Some i j have "j = i" by (simp add: indexOf_def)
      with Some False ne i j show ?thesis by (simp add: indexOf_def)
    qed
  qed
qed

lemma selectServer_index:
  "currentServerIndex (selectServer s a) =
     (case findIndex (\<lambda>r. srv_PublicAddress (objects s r) = a) (servers s) of
        None \<Rightarrow> - 1 | Some i \<Rightarrow> int i)"
  by (simp add: selectServer_def find_indexOf)

lemma selectServer_frame:
  "servers (selectServer s a) = servers s \<and> objects (selectServer s a) = objects s \<and>
   users (selectServer s a) = users s \<and> accessTokens (selectServer s a) = accessTokens s \<and>
   currentUserIndex (selectServer s a) = currentUserIndex s"
  by (simp add: selectServer_def)

lemma find_address_exists:
  "r \<in> set xs \<Longrightarrow> \<exists>server. find (\<lambda>x. f x = f r) xs = Some server \<and> server \<in> set xs \<and> f server = f r"
  by (induction xs) auto

lemma deleteServer_begin_cases:
  assumes "find (\<lambda>r. srv_PublicAddress (objects s r) = a) (servers s) = Some server"
    and "deleteServer_begin s a net = (s1, ev1, pending)"
  shows "objects s1 = objects s \<and> currentServerIndex s1 = currentServerIndex s \<and>
         (if getUsersFromServer s (objects s server) = []
          then servers s1 = remove1 server (servers s) \<and> pending = None
          else servers s1 = servers s \<and>
               pending = Some (server, tl (getUsersFromServer s (objects s server))))"
proof -
  have mem: "server \<in> set (servers s)" using assms(1) by (auto simp: find_Some_iff)
  show ?thesis
  proof (cases "getUsersFromServer s (objects s server)")
    case Nil
    with assms mem show ?thesis
      by (auto simp: deleteServer_begin_def removeServer_def splice_indexOf)
  next
    case (Cons u us)
    with assms show ?thesis
      by (auto simp: deleteServer_begin_def logoutUser_eq)
  qed
qed

lemma deleteServer_resume_cases:
  assumes "deleteServer_resume s net pending = (s', ev)"
  shows "objects s' = objects s \<and> currentServerIndex s' = currentServerIndex s \<and>
         servers s' = (case pending of None \<Rightarrow> servers s
                       | Some (server, us) \<Rightarrow> splice1 (indexOf (servers s) server) (servers s))"
proof (cases pending)
  case None
  with assms show ?thesis by (simp add: deleteServer_resume_def)
next
  case (Some q)
  obtain server us where q: "q = (server, us)" by fastforce
  obtain s1 e1 where l: "logoutUsers s server net us = (s1, e1)" by fastforce
  with assms Some q have "s' = removeServer s1 server" by (simp add: deleteServer_resume_def)
  with logoutUsers_frame[OF l] Some q show ?thesis by (simp add: removeServer_def)
qed

lemma received_sel:
  "srv_Id (received data u d) = srv_Id data"
  "srv_Version (received data u d) = srv_Version data"
  "srv_StartupWizardCompleted (received data u d) = srv_StartupWizardCompleted data"
  "srv_LocalAddress (received data u d) = Undefined"
  "srv_ServerName (received data u d) = srv_ServerName data"
  "srv_PublicAddress (received data u d) = u"
  "srv_isDefault (received data u d) = d"
  by (simp_all add: received_def)

text \<open>
  The call for a server that is registered, when its own code has ended: the
  record found by \<open>Id\<close> is merged and pushed; the record found by its address is
  out of the registry already if it has no users, and still in if it has.
\<close>

lemma connectServer_call_known_server:
  assumes old: "getServerById s (srv_Id data) = Some oldServer"
    and sup: "isServerVersionSupported (srv_Version data)"
    and wiz: "truthy_bool (srv_StartupWizardCompleted data)"
    and run: "connectServer_call s url isDefault (Answer data) net = ((res, s', ev), pending)"
  shows "\<exists>server. find (\<lambda>r. srv_PublicAddress (objects s r) = srv_PublicAddress (objects s oldServer))
                      (servers s) = Some server \<and>
           res = Inr () \<and>
           objects s' = (objects s)(oldServer := merge (objects s oldServer)
                                       (received data (normalizeUrl url) isDefault)) \<and>
           servers s' = (if getUsersFromServer s (objects s server) = []
                         then remove1 server (servers s) else servers s) @ [oldServer] \<and>
           pending = (if getUsersFromServer s (objects s server) = [] then None
                      else Some (server, tl (getUsersFromServer s (objects s server)))) \<and>
           currentServerIndex s' =
             (case findIndex (\<lambda>r. srv_PublicAddress (objects s' r) = normalizeUrl url) (servers s') of
                None \<Rightarrow> - 1 | Some i \<Rightarrow> int i)"
proof -
  define serv where "serv = received data (normalizeUrl url) isDefault"
  have om: "oldServer \<in> set (servers s)" using old by (auto simp: getServerById_def find_Some_iff)
  from find_address_exists[OF om, of "\<lambda>r. srv_PublicAddress (objects s r)"]
  obtain server where f: "find (\<lambda>r. srv_PublicAddress (objects s r) = srv_PublicAddress (objects s oldServer))
                      (servers s) = Some server" by blast
  obtain s1 ev1 p where b: "deleteServer_begin s (srv_PublicAddress (objects s oldServer)) net = (s1, ev1, p)"
    by (metis prod_cases3)
  note bc = deleteServer_begin_cases[OF f b]
  define s2 where "s2 = s1\<lparr> objects := (objects s1)(oldServer := merge (objects s1 oldServer) serv),
                            servers := servers s1 @ [oldServer] \<rparr>"
  from run old sup wiz b have res: "res = Inr ()" and s': "s' = selectServer s2 (normalizeUrl url)"
    and p: "pending = p"
    by (simp_all add: connectServer_call_def Let_def received_sel s2_def serv_def)
  have o: "objects s' = (objects s)(oldServer := merge (objects s oldServer) serv)"
    using bc by (simp add: s' s2_def selectServer_frame)
  have sv: "servers s' = servers s1 @ [oldServer]" by (simp add: s' s2_def selectServer_frame)
  have ix: "currentServerIndex s' =
             (case findIndex (\<lambda>r. srv_PublicAddress (objects s' r) = normalizeUrl url) (servers s') of
                None \<Rightarrow> - 1 | Some i \<Rightarrow> int i)"
    by (simp add: s' selectServer_index selectServer_frame)
  show ?thesis
  proof (cases "getUsersFromServer s (objects s server) = []")
    case True
    with bc sv p have "servers s' = remove1 server (servers s) @ [oldServer]" "pending = None"
      by simp_all
    with f res o ix True show ?thesis by (simp add: serv_def)
  next
    case False
    with bc sv p have "servers s' = servers s @ [oldServer]"
      "pending = Some (server, tl (getUsersFromServer s (objects s server)))" by simp_all
    with f res o ix False show ?thesis by (simp add: serv_def)
  qed
qed

text \<open>The same, once the \<open>deleteServer\<close> that the call started has ended.\<close>

lemma connectServer_settled_known_server:
  assumes old: "getServerById s (srv_Id data) = Some oldServer"
    and sup: "isServerVersionSupported (srv_Version data)"
    and wiz: "truthy_bool (srv_StartupWizardCompleted data)"
    and run: "connectServer_settled s url isDefault (Answer data) net = (res, s', ev)"
  shows "\<exists>server. find (\<lambda>r. srv_PublicAddress (objects s r) = srv_PublicAddress (objects s oldServer))
                      (servers s) = Some server \<and>
           res = Inr () \<and>
           objects s' = (objects s)(oldServer := merge (objects s oldServer)
                                       (received data (normalizeUrl url) isDefault)) \<and>
           servers s' = remove1 server (servers s @ [oldServer]) \<and>
           currentServerIndex s' =
             currentServerIndex (fst (snd (connectServer s url isDefault (Answer data) net)))"
proof -
  obtain r1 s1 e1 pending where c: "connectServer_call s url isDefault (Answer data) net = ((r1, s1, e1), pending)"
    by (metis prod.collapse)
  from connectServer_call_known_server[OF old sup wiz c]
  obtain server where
    f: "find (\<lambda>r. srv_PublicAddress (objects s r) = srv_PublicAddress (objects s oldServer))
                      (servers s) = Some server"
    and r1: "r1 = Inr ()"
    and o: "objects s1 = (objects s)(oldServer := merge (objects s oldServer)
                                       (received data (normalizeUrl url) isDefault))"
    and sv: "servers s1 = (if getUsersFromServer s (objects s server) = []
                         then remove1 server (servers s) else servers s) @ [oldServer]"
    and p: "pending = (if getUsersFromServer s (objects s server) = [] then None
                      else Some (server, tl (getUsersFromServer s (objects s server))))"
    by blast
  have sm: "server \<in> set (servers s)" using f by (auto simp: find_Some_iff)
  obtain s2 e2 where d: "deleteServer_resume s1 net pending = (s2, e2)" by fastforce
  note rc = deleteServer_resume_cases[OF d]
  from run c d have res: "res = r1" and s': "s' = s2" by (simp_all add: connectServer_settled_def)
  have "servers s' = remove1 server (servers s @ [oldServer])"
  proof (cases "getUsersFromServer s (objects s server) = []")
    case True
    with rc p sv sm show ?thesis by (simp add: s' remove1_append)
  next
    case False
    with rc p sv sm show ?thesis by (simp add: s' splice_indexOf)
  qed
  moreover have "currentServerIndex s' =
             currentServerIndex (fst (snd (connectServer s url isDefault (Answer data) net)))"
    using rc c by (simp add: s' connectServer_def)
  ultimately show ?thesis using f res r1 rc o by (simp add: s')
qed

lemma fold_max_ge: "a \<le> fold max xs (a::nat) \<and> (\<forall>x \<in> set xs. x \<le> fold max xs a)"
proof (induction xs arbitrary: a)
  case Nil
  then show ?case by simp
next
  case (Cons y ys)
  have "max y a \<le> fold max ys (max y a)" "\<forall>x \<in> set ys. x \<le> fold max ys (max y a)"
    using Cons.IH[of "max y a"] by simp_all
  then show ?case by auto
qed

lemma fresh_notin: "fresh rs \<notin> set rs"
proof
  assume "fresh rs \<in> set rs"
  then have "fresh rs \<le> fold max rs 0" using fold_max_ge[of 0 rs] by blast
  then show False by (simp add: fresh_def)
qed

lemma connectServer_call_new_server:
  assumes new: "getServerById s (srv_Id data) = None"
    and sup: "isServerVersionSupported (srv_Version data)"
    and wiz: "truthy_bool (srv_StartupWizardCompleted data)"
    and run: "connectServer_call s url isDefault (Answer data) net = ((res, s', ev), pending)"
  shows "res = Inr () \<and> ev = [] \<and> pending = None \<and>
         servers s' = servers s @ [fresh (servers s)] \<and>
         objects s' = (objects s)(fresh (servers s) := received data (normalizeUrl url) isDefault) \<and>
         users s' = users s \<and> accessTokens s' = accessTokens s \<and>
         currentUserIndex s' = currentUserIndex s"
  using assms by (auto simp: connectServer_call_def Let_def received_sel selectServer_frame)

lemma connectServer_new_server:
  assumes new: "getServerById s (srv_Id data) = None"
    and sup: "isServerVersionSupported (srv_Version data)"
    and wiz: "truthy_bool (srv_StartupWizardCompleted data)"
    and run: "connectServer s url isDefault (Answer data) net = (res, s', ev)"
  shows "res = Inr () \<and> ev = [] \<and>
         connectServer_unfinished s url isDefault (Answer data) net = None \<and>
         servers s' = servers s @ [fresh (servers s)] \<and>
         objects s' = (objects s)(fresh (servers s) := received data (normalizeUrl url) isDefault) \<and>
         users s' = users s \<and> accessTokens s' = accessTokens s \<and>
         currentUserIndex s' = currentUserIndex s"
proof -
  obtain pending where c: "connectServer_call s url isDefault (Answer data) net = ((res, s', ev), pending)"
    using run by (cases "connectServer_call s url isDefault (Answer data) net") (simp add: connectServer_def)
  from connectServer_call_new_server[OF new sup wiz c] c show ?thesis
    by (simp add: connectServer_unfinished_def)
qed








lemma supported_10_9_0: "isServerVersionSupported (Val ''10.9.0'')"
  by code_simp




lemma info_B_accepted:
  "isServerVersionSupported (srv_Version info_B) \<and> truthy_bool (srv_StartupWizardCompleted info_B)"
  by (simp add: info_B_def supported_10_8_0)








subsection \<open>connectServer on a registered server, with other servers registered\<close>

text \<open>
  With a second server registered and a user signed in on the first, connecting
  the first again computes \<open>currentServerIndex\<close> on the array that still holds
  the object at its old place; the call ends there, with the object twice in the
  registry. The rest of \<open>deleteServer\<close> then takes the first occurrence out, and
  the selector is left on the other server. The call also signs the users of the
  server out.
\<close>

lemma reconnect_A_call:
  "connectServer_call run_2B ''http://a'' False (Answer info_A) (\<lambda>_. Fulfilled) =
     ((Inr (), run_2B\<lparr> users := [], accessTokens := Map.empty, servers := [1, 2, 1],
                       currentServerIndex := 0 \<rparr>,
       [RemoteLogout ''http://a'' (Some ''t1'')]), Some (1, []))"
proof -
  have old: "getServerById run_2B (Val ''A'') = Some (Suc 0)"
    by (simp add: getServerById_def run_2B_def two_servers_def one_server_def server_A_def)
  have b: "deleteServer_begin run_2B ''http://a'' (\<lambda>_. Fulfilled) =
             (run_2B\<lparr> users := [], accessTokens := Map.empty \<rparr>,
              [RemoteLogout ''http://a'' (Some ''t1'')], Some (Suc 0, []))"
    by (simp add: deleteServer_begin_def run_2B_def two_servers_def one_server_def server_A_def
        server_B_def getUsersFromServer_def user_1_def logoutUser_eq getUserAccessToken_def)
  have a: "srv_PublicAddress (objects run_2B (Suc 0)) = ''http://a''"
    by (simp add: run_2B_def two_servers_def one_server_def server_A_def)
  have m: "merge (objects run_2B (Suc 0)) (received info_A ''http://a'' False) = server_A"
    by (simp add: merge_def pick_def received_def info_A_def run_2B_def two_servers_def
        one_server_def server_A_def)
  have i: "srv_Id info_A = Val ''A''" "srv_Version info_A = Val ''10.8.0''"
    "srv_StartupWizardCompleted info_A = Val True"
    by (simp_all add: info_A_def)
  show ?thesis
    by (simp add: connectServer_call_def Let_def received_sel old a b m i supported_10_8_0
        normalizeUrl_a_plain selectServer_def indexOf_def)
       (simp add: run_2B_def two_servers_def one_server_def server_A_def server_B_def fun_eq_iff
          indexOf_def)
qed

lemma connectServer_selects_other_server:
  "reachable run_2B \<and> currentServer run_2B = Some server_B \<and>
   fst (connectServer run_2B ''http://a'' False (Answer info_A) (\<lambda>_. Fulfilled)) = Inr () \<and>
   servers (fst (snd (connectServer run_2B ''http://a'' False (Answer info_A) (\<lambda>_. Fulfilled)))) = [1, 2, 1] \<and>
   currentServerIndex (fst (snd (connectServer run_2B ''http://a'' False (Answer info_A) (\<lambda>_. Fulfilled)))) = 0 \<and>
   currentServer (fst (snd (connectServer run_2B ''http://a'' False (Answer info_A) (\<lambda>_. Fulfilled)))) = Some server_A \<and>
   connectServer_unfinished run_2B ''http://a'' False (Answer info_A) (\<lambda>_. Fulfilled) = Some (1, []) \<and>
   servers (fst (snd (connectServer_settled run_2B ''http://a'' False (Answer info_A) (\<lambda>_. Fulfilled)))) = [2, 1] \<and>
   currentServerIndex (fst (snd (connectServer_settled run_2B ''http://a'' False (Answer info_A) (\<lambda>_. Fulfilled)))) = 0 \<and>
   currentServer (fst (snd (connectServer_settled run_2B ''http://a'' False (Answer info_A) (\<lambda>_. Fulfilled)))) = Some server_B \<and>
   users (fst (snd (connectServer_settled run_2B ''http://a'' False (Answer info_A) (\<lambda>_. Fulfilled)))) = []"
proof -
  have s: "connectServer_settled run_2B ''http://a'' False (Answer info_A) (\<lambda>_. Fulfilled) =
             (Inr (), run_2B\<lparr> users := [], accessTokens := Map.empty, servers := [2, 1],
                               currentServerIndex := 0 \<rparr>,
              [RemoteLogout ''http://a'' (Some ''t1'')])"
    by (simp add: connectServer_settled_def reconnect_A_call deleteServer_resume_def
        removeServer_def indexOf_def splice1_def)
  show ?thesis
    using reachable_run_2B
    by (simp add: s connectServer_def connectServer_unfinished_def reconnect_A_call)
       (simp add: currentServer_def js_index_def run_2B_def two_servers_def one_server_def)
qed

text \<open>
  \<open>connectServer\<close> looks the registered record up by \<open>Id\<close>, and \<open>deleteServer\<close>
  looks it up again by its address. When an address that is registered for one
  server answers with the identifier of another, the first call appends a second
  record with that address, and the second call takes the record of the first
  server out and pushes the merged record, which is then twice in the registry.
\<close>

lemma connectServer_registers_twice:
  "fst (connectServer run_1 ''http://a'' False (Answer info_B) (\<lambda>_. Fulfilled)) = Inr () \<and>
   servers (fst (snd (connectServer run_1 ''http://a'' False (Answer info_B) (\<lambda>_. Fulfilled)))) = [1, 2] \<and>
   connectServer_unfinished run_1 ''http://a'' False (Answer info_B) (\<lambda>_. Fulfilled) = None \<and>
   fst (connectServer_settled
          (fst (snd (connectServer run_1 ''http://a'' False (Answer info_B) (\<lambda>_. Fulfilled))))
          ''http://a'' False (Answer info_B) (\<lambda>_. Fulfilled)) = Inr () \<and>
   servers (fst (snd (connectServer_settled
          (fst (snd (connectServer run_1 ''http://a'' False (Answer info_B) (\<lambda>_. Fulfilled))))
          ''http://a'' False (Answer info_B) (\<lambda>_. Fulfilled)))) = [2, 2]"
proof -
  let ?c = "connectServer run_1 ''http://a'' False (Answer info_B) (\<lambda>_. Fulfilled)"
  let ?t = "fst (snd ?c)"
  let ?r = "connectServer_settled ?t ''http://a'' False (Answer info_B) (\<lambda>_. Fulfilled)"
  have run1: "?c = (fst ?c, ?t, snd (snd ?c))" by simp
  have run2: "?r = (fst ?r, fst (snd ?r), snd (snd ?r))" by simp
  have new: "getServerById run_1 (srv_Id info_B) = None"
    by (simp add: getServerById_def run_1_def one_server_def server_A_def info_B_def)
  from connectServer_new_server[OF new conjunct1[OF info_B_accepted] conjunct2[OF info_B_accepted] run1]
  have c: "fst ?c = Inr ()" "servers ?t = [Suc 0, 2]"
    "connectServer_unfinished run_1 ''http://a'' False (Answer info_B) (\<lambda>_. Fulfilled) = None"
    and o: "objects ?t = one_server(2 := received info_B ''http://a'' False)"
    by (simp_all add: run_1_def fresh_after_1 normalizeUrl_a_plain)
  have i: "srv_Id info_B = Val ''B''" by (simp add: info_B_def)
  have old: "getServerById ?t (srv_Id info_B) = Some 2"
    by (simp add: getServerById_def c o i received_sel one_server_def server_A_def)
  from connectServer_settled_known_server[OF old conjunct1[OF info_B_accepted]
      conjunct2[OF info_B_accepted] run2]
  obtain server where
    f: "find (\<lambda>r. srv_PublicAddress (objects ?t r) = srv_PublicAddress (objects ?t 2))
          (servers ?t) = Some server"
    and res: "fst ?r = Inr ()"
    and sv: "servers (fst (snd ?r)) = remove1 server (servers ?t @ [2])"
    by blast
  from f have "server = Suc 0"
    by (simp add: c o received_sel one_server_def server_A_def)
  with sv res c show ?thesis by simp
qed

subsection \<open>The earlier store\<close>

text \<open>
  The earlier \<open>deleteServer\<close> keeps what it should drop: the registry of servers
  becomes the deleted server alone, the registry of users the users of that server,
  whose tokens are deleted, while the tokens of the users it dropped stay. The
  earlier \<open>loginUser\<close> hands a failure on to its caller, and the earlier
  \<open>logoutUser\<close> rejects when its request does and keeps the record of the user
  it signs out, alone. The earlier \<open>connectServer\<close> leaves a registered server as
  it is: nothing is merged, and the selector is lost when the address is new.
\<close>

lemma spliced1_indexOf: "x \<in> set xs \<Longrightarrow> spliced1 (indexOf xs x) xs = [x]"
proof -
  assume "x \<in> set xs"
  then obtain i where i: "findIndex (\<lambda>y. y = x) xs = Some i"
    using findIndex_None_iff[of "\<lambda>y. y = x" xs] by (cases "findIndex (\<lambda>y. y = x) xs") auto
  from findIndex_Some_bound[OF i] have "i < length xs" "xs ! i = x" by simp_all
  then have "take 1 (drop i xs) = [x]"
    by (metis Cons_nth_drop_Suc One_nat_def take0 take_Suc_Cons)
  with i \<open>i < length xs\<close> show ?thesis by (simp add: spliced1_def indexOf_def Let_def min_def)
qed

lemma authStore_logoutAll_fulfilled:
  "\<forall>u \<in> set us. net u = Fulfilled \<Longrightarrow> authStore_logoutAll s net us = (res, s') \<Longrightarrow>
     res = Inr () \<and> users s' = users s \<and> servers s' = servers s \<and> objects s' = objects s \<and>
     accessTokens s' = (\<lambda>k. if k \<in> key_of ` usr_Id ` set us then None else accessTokens s k)"
proof (induction us arbitrary: s)
  case Nil
  then show ?case by simp
next
  case (Cons u us)
  from Cons.prems have
    "authStore_logoutAll (s\<lparr> accessTokens := (accessTokens s)(key_of (usr_Id u) := None) \<rparr>) net us = (res, s')"
    by (simp add: authStore_logoutUser_def)
  from Cons.IH[OF _ this] Cons.prems(1) show ?case by (auto simp: fun_eq_iff)
qed

lemma authStore_deleteServer_keeps_the_deleted:
  assumes "find (\<lambda>r. srv_PublicAddress (objects s r) = serverUrl) (servers s) = Some server"
    and "\<forall>u. net u = Fulfilled"
    and "authStore_deleteServer s serverUrl net = (res, s')"
  shows "res = Inr () \<and> servers s' = [server] \<and>
         users s' = filter (\<lambda>u. usr_ServerId u = srv_Id (objects s server)) (users s)"
proof -
  let ?us = "getUsersFromServer s (objects s server)"
  obtain r1 s1 where l: "authStore_logoutAll s net ?us = (r1, s1)" by fastforce
  from authStore_logoutAll_fulfilled[OF _ l] assms(2)
  have f: "r1 = Inr ()" "users s1 = users s" "servers s1 = servers s" by simp_all
  have mem: "server \<in> set (servers s)" using assms(1) by (auto simp: find_Some_iff)
  from assms(1,3) l f mem show ?thesis
    by (auto simp: authStore_deleteServer_def Let_def spliced1_indexOf getUsersFromServer_def
        intro: filter_cong)
qed

lemma authStore_deleteServer_example:
  "fst (authStore_deleteServer state_A1B3 ''http://a'' (\<lambda>_. Fulfilled)) = Inr () \<and>
   servers (snd (authStore_deleteServer state_A1B3 ''http://a'' (\<lambda>_. Fulfilled))) = [1] \<and>
   users (snd (authStore_deleteServer state_A1B3 ''http://a'' (\<lambda>_. Fulfilled))) = [user_1] \<and>
   dom (accessTokens (snd (authStore_deleteServer state_A1B3 ''http://a'' (\<lambda>_. Fulfilled)))) = {''u3''} \<and>
   \<not> tokens_covered (snd (authStore_deleteServer state_A1B3 ''http://a'' (\<lambda>_. Fulfilled)))"
proof -
  have "authStore_deleteServer state_A1B3 ''http://a'' (\<lambda>_. Fulfilled) =
          (Inr (), state_A1B3\<lparr> accessTokens := [''u3'' \<mapsto> ''t3''], users := [user_1], servers := [1] \<rparr>)"
    by (simp add: authStore_deleteServer_def Let_def state_A1B3_def two_servers_def one_server_def
        server_A_def server_B_def getUsersFromServer_def user_1_def user_3_def
        authStore_logoutUser_def spliced1_def indexOf_def)
  then show ?thesis by (auto simp: tokens_covered_def user_1_def)
qed

lemma authStore_loginUser_rethrows:
  "currentServer s = Some server \<Longrightarrow>
     fst (authStore_loginUser s username password remember (Failed f)) = Inl RequestRejected \<and>
     fst (snd (authStore_loginUser s username password remember (Failed f))) = s"
  by (cases f) (simp_all add: authStore_loginUser_def)

lemma authStore_logoutUser_rejects:
  "fst (authStore_logoutUser s clearUser False Rejected) = Inl RequestRejected"
  by (simp add: authStore_logoutUser_def Let_def)

lemma authStore_logoutUser_example:
  "currentUser state_A12 = Some user_2 \<and>
   fst (authStore_logoutUser state_A12 True False Fulfilled) = Inr () \<and>
   users (snd (authStore_logoutUser state_A12 True False Fulfilled)) = [user_2] \<and>
   accessTokens (snd (authStore_logoutUser state_A12 True False Fulfilled)) = [''u1'' \<mapsto> ''t1''] \<and>
   \<not> tokens_covered (snd (authStore_logoutUser state_A12 True False Fulfilled))"
proof -
  have c: "currentUser state_A12 = Some user_2"
    by (simp add: currentUser_def js_index_def state_A12_def)
  have "authStore_logoutUser state_A12 True False Fulfilled =
          (Inr (), state_A12\<lparr> accessTokens := [''u1'' \<mapsto> ''t1''], users := [user_2],
                               currentUserIndex := - 1 \<rparr>)"
    by (simp add: authStore_logoutUser_def c Let_def)
       (auto simp: state_A12_def user_2_def fun_eq_iff)
  with c show ?thesis by (auto simp: tokens_covered_def user_2_def)
qed

lemma authStore_connectServer_registered:
  assumes "getServerById s (srv_Id data) = Some oldServer"
    and "isServerVersionSupported (srv_Version data)"
    and "truthy_bool (srv_StartupWizardCompleted data)"
  shows "authStore_connectServer s url isDefault (Answer data) =
           (Inr (), selectServer s (strip_slash url), [])"
  using assms by (simp add: authStore_connectServer_def Let_def)

lemma strip_slash_b: "strip_slash ''http://b'' = ''http://b''"
  by code_simp

lemma authStore_connectServer_example:
  "authStore_connectServer run_1 ''http://b'' True (Answer info_A_later) =
     (Inr (), run_1\<lparr> currentServerIndex := - 1 \<rparr>, []) \<and>
   servers run_1 = [1] \<and> objects run_1 1 = server_A \<and>
   srv_PublicAddress server_A = ''http://a'' \<and> srv_Version server_A = Val ''10.8.0''"
proof -
  have old: "getServerById run_1 (srv_Id info_A_later) = Some (Suc 0)"
    by (simp add: getServerById_def run_1_def one_server_def server_A_def info_A_later_def)
  have i: "isServerVersionSupported (srv_Version info_A_later)"
    "truthy_bool (srv_StartupWizardCompleted info_A_later)"
    by (simp_all add: info_A_later_def supported_10_9_0)
  have "selectServer run_1 ''http://b'' = run_1\<lparr> currentServerIndex := - 1 \<rparr>"
    by (simp add: selectServer_def run_1_def one_server_def server_A_def)
  with authStore_connectServer_registered[OF old i, of "''http://b''" True] show ?thesis
    by (simp add: strip_slash_b) (simp add: run_1_def one_server_def server_A_def)
qed

end
